theory Spec2Isabelle
  imports Main "HOL-Library.Multiset" "HOL-Library.AList" "HOL-Library.Sublist"
begin

section \<open>Data model\<close>

text \<open>
  The station keeps its state in JSON files.  A JSON object is a Python \<open>dict\<close>, which
  keeps its keys in insertion order: it is modelled as an association list with distinct
  keys.  The keys of \<open>json/requests.json\<close> are the decimal strings \<open>str(i)\<close> written by
  \<open>add_request\<close> and by the renumbering loops; the model keeps the integer \<open>i\<close> itself.
  Timestamps (\<open>datetime.now()\<close>, the \<open>played\<close> field) are integers counting microseconds,
  the resolution of Python's \<open>datetime\<close>; a \<open>played\<close> value that
  \<open>datetime.fromisoformat\<close> does not parse is \<open>None\<close>.
\<close>

record track_meta =
  title :: string
  artist :: string
  album :: string
  played :: "int option"
  albumart :: "string option"
  spotifyID :: string
  requester :: string
  apprequest :: string
  external_url :: string

text \<open>An entry of \<open>json/requests.json\<close>; \<open>req_id\<close> is its \<open>"id"\<close> field, absent until
  \<open>add_request\<close> assigns it.\<close>

record request = track_meta +
  req_id :: "int option"
  duration :: int
  youtube_url :: string

text \<open>A playback record, as stored in \<open>json/now_playing.json\<close> and \<open>json/next_coming.json\<close>.
  \<open>ID\<close> is \<open>None\<close> when the record has no key \<open>"ID"\<close>, as the metadata of a promotion.\<close>

record song = track_meta +
  ID :: "string option"
  release_date :: string
  durationsec :: int
  position :: int
  remaining :: int

text \<open>What a playback file holds: the empty object \<open>{}\<close> (also a missing or unreadable
  file, see \<open>load_json\<close>), one object, or a JSON list of objects.\<close>

datatype slot = Empty | Single song | Listed "song list"

record history_entry =
  h_title :: string
  h_artist :: string
  h_played :: "int option"
  h_spotifyID :: string

type_synonym requests = "(int \<times> request) list"

text \<open>The persisted state.  \<open>ticker_data\<close> is not a file: it is the local variable \<open>data\<close>
  of the running \<open>update_position_and_remaining\<close> task, the copy of the now-playing file
  that the task writes back every second, with its counter \<open>second\<close> (\<open>None\<close> when no such
  task holds a copy).\<close>

record station =
  requests_file :: requests
  now_playing_file :: slot
  next_coming_file :: slot
  history_file :: "string \<rightharpoonup> history_entry"
  blocked_songs :: "string set"
  ticker_data :: "(slot \<times> int) option"

text \<open>The strings returned to the request-routing layer.  \<open>Error c\<close> is a string that
  starts with \<open>error c:\<close> (the callers dispatch on that prefix); \<open>Text\<close> is a message that
  carries no code; \<open>Removed i\<close> is the success message of a removal; \<open>NoReturn\<close> is the
  \<open>None\<close> that \<open>request_maker\<close> returns after it has caught an exception.\<close>

datatype reply = Error nat | Text string | Removed int | Accepted request | NoReturn

datatype exn = ValueError | KeyError | AttributeError

section \<open>Request queue (\<open>config/requestHandler.py\<close>)\<close>

definition add_request :: "requests \<Rightarrow> request \<Rightarrow> requests" where
  "add_request request_data new_request =
     (let new_id = int (length request_data) + 1
      in AList.update new_id (new_request\<lparr>req_id := Some new_id\<rparr>) request_data)"

text \<open>The loop \<open>for new_id, key in enumerate(request_data.keys(), start=1)\<close>.\<close>

fun reassign :: "int \<Rightarrow> requests \<Rightarrow> requests" where
  "reassign new_id [] = []"
| "reassign new_id ((key, r) # rest) =
     (new_id, r\<lparr>req_id := Some new_id\<rparr>) # reassign (new_id + 1) rest"

text \<open>\<open>index\<close> is \<open>None\<close> when the caller passed \<open>None\<close> or a value that is not an \<open>int\<close>.\<close>

definition remove_request_by_index ::
    "requests \<Rightarrow> int option \<Rightarrow> string \<Rightarrow> bool \<Rightarrow> reply \<times> requests" where
  "remove_request_by_index file index caller moderator =
     (case index of
        None \<Rightarrow> (Error 801, file)
      | Some i \<Rightarrow>
          (case map_of file i of
             None \<Rightarrow> (Error 702, file)
           | Some request \<Rightarrow>
               if \<not> moderator \<and> requester request \<noteq> caller then (Error 701, file)
               else (Removed i, reassign 1 (AList.delete i file))))"

definition check_request_exists :: "requests \<Rightarrow> string \<Rightarrow> bool" where
  "check_request_exists request_data spotify_id =
     list_ex (\<lambda>(key, v). spotifyID v = spotify_id) request_data"

text \<open>Positions are dense when the keys are \<open>1..N\<close> in file order and every entry's
  \<open>"id"\<close> is its key, which is what \<open>add_request\<close> and the renumbering loops write.\<close>

definition dense :: "requests \<Rightarrow> bool" where
  "dense q = (map fst q = [1 .. int (length q)] \<and> list_all (\<lambda>(key, r). req_id r = Some key) q)"

section \<open>Playback state (\<open>config/songHandler.py\<close>)\<close>

definition truthy :: "slot \<Rightarrow> bool" where
  "truthy data = (case data of Empty \<Rightarrow> False | Single s \<Rightarrow> True | Listed xs \<Rightarrow> xs \<noteq> [])"

definition move_to_now_playing :: "station \<Rightarrow> station" where
  "move_to_now_playing st =
     (let next_coming_data = next_coming_file st
      in if truthy next_coming_data
         then st\<lparr>now_playing_file := next_coming_data, next_coming_file := Empty\<rparr>
         else st)"

text \<open>\<open>for item in data\<close> walks the keys of an object (none of which is the JSON text of
  an object, so every one is skipped) and the elements of a list.\<close>

definition next_coming_file_exists :: "station \<Rightarrow> string \<Rightarrow> bool" where
  "next_coming_file_exists st sid =
     (case next_coming_file st of
        Empty \<Rightarrow> False
      | Single s \<Rightarrow> False
      | Listed items \<Rightarrow> list_ex (\<lambda>item. spotifyID item = sid) items)"

definition now_playing_file_exists :: "station \<Rightarrow> string \<Rightarrow> bool" where
  "now_playing_file_exists st sid =
     (case now_playing_file st of
        Empty \<Rightarrow> False
      | Single s \<Rightarrow> False
      | Listed items \<Rightarrow> list_ex (\<lambda>item. spotifyID item = sid) items)"

text \<open>The two history checks.  \<open>total_seconds() < 3 * 3600\<close> is the comparison below in
  microseconds; \<open>Inl ValueError\<close> is \<open>fromisoformat\<close> raising.\<close>

definition track_already_played :: "station \<Rightarrow> int \<Rightarrow> request \<Rightarrow> exn + bool" where
  "track_already_played st now song_data =
     (let history = history_file st; spotify_id = spotifyID song_data
      in if spotify_id = [] then Inr False
         else case history spotify_id of
                None \<Rightarrow> Inr False
              | Some entry \<Rightarrow>
                  (case h_played entry of
                     None \<Rightarrow> Inl ValueError
                   | Some played_time \<Rightarrow> Inr (now - played_time < 3 * 3600 * 1000000)))"

definition track_already_played_id :: "station \<Rightarrow> int \<Rightarrow> string \<Rightarrow> exn + bool" where
  "track_already_played_id st now spotify_id =
     (let history = history_file st
      in if spotify_id = [] then Inr False
         else case history spotify_id of
                None \<Rightarrow> Inr False
              | Some entry \<Rightarrow>
                  (case h_played entry of
                     None \<Rightarrow> Inl ValueError
                   | Some played_time \<Rightarrow> Inr (now - played_time < 5 * 3600 * 1000000)))"

section \<open>Blocked songs (\<open>config/blocker.py\<close>)\<close>

definition is_song_blocked :: "station \<Rightarrow> string \<Rightarrow> bool" where
  "is_song_blocked st song_id = (song_id \<in> blocked_songs st)"

section \<open>Submissions (\<open>config/request_adder.py\<close>)\<close>

text \<open>What the catalog returns for \<open>sp.track(id)\<close>, after the retries of
  \<open>get_song_data_by_id\<close>: the text of an error, or the track.\<close>

record catalog_track =
  t_id :: string
  t_name :: string
  t_artists :: string
  t_album :: string
  t_duration_ms :: int
  t_image :: "string option"
  t_external_url :: string

definition get_song_data_by_id ::
    "(string \<Rightarrow> string + catalog_track) \<Rightarrow> int \<Rightarrow> string \<Rightarrow> string \<Rightarrow> string \<Rightarrow> string + request" where
  "get_song_data_by_id sp now track_id requester_name app =
     (case sp track_id of
        Inl err \<Rightarrow> Inl err
      | Inr track \<Rightarrow>
          Inr \<lparr>title = t_name track, artist = t_artists track, album = t_album track,
               played = Some now, albumart = t_image track, spotifyID = t_id track,
               requester = requester_name, apprequest = app,
               external_url = t_external_url track,
               req_id = None, duration = t_duration_ms track, youtube_url = []\<rparr>)"

text \<open>The arguments of \<open>request_maker\<close>.  An optional string that is \<open>None\<close> or empty is
  \<open>[]\<close> (both are falsy, and every use tests truthiness); \<open>m_duration\<close> likewise is 0.\<close>

record submission =
  song_id :: string
  sub_requester :: string
  app :: string
  sub_youtube_url :: string
  m_title :: string
  m_artist :: string
  m_album :: string
  m_duration :: int
  m_albumart :: string

definition startswith :: "string \<Rightarrow> string \<Rightarrow> bool" where
  "startswith s p = (take (length p) s = p)"

definition str_opt :: "string option \<Rightarrow> string" where
  "str_opt v = (case v of None \<Rightarrow> ''None'' | Some s \<Rightarrow> s)"

text \<open>The first part of \<open>request_maker\<close> (up to the line that logs the song data): the
  reply of an early return, or \<open>is_youtube_only\<close> and \<open>song_data\<close>.\<close>

definition song_data_of ::
    "(string \<Rightarrow> string option) \<Rightarrow> (string \<Rightarrow> string + catalog_track) \<Rightarrow> int
     \<Rightarrow> submission \<Rightarrow> reply + (bool \<times> request)" where
  "song_data_of get_app_id sp now sub =
     (let app_id = (if app sub \<noteq> [] then get_app_id (app sub) else None)
      in if app sub \<noteq> [] \<and> app_id = None then Inl (Text (''Unknown app: '' @ app sub))
      else
        let is_youtube_only =
              (startswith (song_id sub) ''youtube_'' \<and> m_title sub \<noteq> [] \<and> m_artist sub \<noteq> [])
        in if is_youtube_only
           then Inr (True,
                  \<lparr>title = m_title sub, artist = m_artist sub,
                   album = (if m_album sub \<noteq> [] then m_album sub else ''YouTube''),
                   played = Some now,
                   albumart = (if m_albumart sub \<noteq> [] then Some (m_albumart sub) else None),
                   spotifyID = song_id sub, requester = sub_requester sub,
                   apprequest = str_opt app_id, external_url = sub_youtube_url sub,
                   req_id = None,
                   duration = (if m_duration sub \<noteq> 0 then m_duration sub * 1000 else 0),
                   youtube_url = sub_youtube_url sub\<rparr>)
           else case get_song_data_by_id sp now (song_id sub) (sub_requester sub) (str_opt app_id) of
                  Inl err \<Rightarrow> Inl (Text err)
                | Inr d \<Rightarrow> Inr (False, if sub_youtube_url sub \<noteq> []
                                        then d\<lparr>youtube_url := sub_youtube_url sub\<rparr> else d))"

text \<open>\<open>request_maker\<close>: the checks and the enqueue.  An exception of a check is caught by
  the function's handler, which prints it and returns \<open>None\<close>.\<close>

definition request_maker ::
    "(string \<Rightarrow> string option) \<Rightarrow> (string \<Rightarrow> string + catalog_track) \<Rightarrow> int
     \<Rightarrow> station \<Rightarrow> submission \<Rightarrow> reply \<times> station" where
  "request_maker get_app_id sp now st sub =
     (case song_data_of get_app_id sp now sub of
        Inl early \<Rightarrow> (early, st)
      | Inr (is_youtube_only, song_data) \<Rightarrow>
          (case track_already_played st now song_data of
             Inl e \<Rightarrow> (NoReturn, st)
           | Inr recently \<Rightarrow>
               if recently then (Error 609, st)
               else if \<not> is_youtube_only \<and> is_song_blocked st (spotifyID song_data)
                 then (Error 709, st)
               else if check_request_exists (requests_file st) (spotifyID song_data)
                 then (Error 708, st)
               else if next_coming_file_exists st (spotifyID song_data)
                 then (Error 707, st)
               else if now_playing_file_exists st (spotifyID song_data)
                 then (Error 706, st)
               else
                 (Accepted (song_data\<lparr>req_id := Some (int (length (requests_file st)) + 1)\<rparr>),
                  st\<lparr>requests_file := add_request (requests_file st) song_data\<rparr>)))"


section \<open>Writers of the playback files\<close>

text \<open>The track object that \<open>save_to_next_coming\<close> reads.  A string field is \<open>[]\<close> when the
  key is absent or \<open>None\<close> (the code tests truthiness); an optional field is \<open>None\<close> when
  the key is absent, so that the code's default applies.\<close>

record raw_track =
  r_id :: string
  r_track_id :: string
  r_name :: string
  r_title :: string
  r_artists :: "string list option"
  r_artist :: "string option"
  r_album_name :: "string option"
  r_album_image :: "string option"
  r_release_date :: "string option"
  r_duration_ms :: "int option"
  r_spotify_url :: "string option"

text \<open>The argument \<open>track_data\<close>: not a dictionary; a dictionary with a \<open>"track"\<close> key, whose
  value is a dictionary or not; a dictionary without that key.\<close>

datatype track_data = NotADict | Wrapped "raw_track option" | Raw raw_track

fun join_names :: "string list \<Rightarrow> string" where
  "join_names [] = []"
| "join_names [a] = a"
| "join_names (a # b # rest) = a @ '', '' @ join_names (b # rest)"

definition save_to_next_coming :: "int \<Rightarrow> station \<Rightarrow> track_data \<Rightarrow> string \<Rightarrow> string \<Rightarrow> station" where
  "save_to_next_coming now st data requester_name appreq =
     (case (case data of NotADict \<Rightarrow> None | Wrapped w \<Rightarrow> w | Raw r \<Rightarrow> Some r) of
        None \<Rightarrow> st
      | Some raw \<Rightarrow>
          (let the_id = (if r_id raw \<noteq> [] then r_id raw else r_track_id raw);
               secs = (case r_duration_ms raw of None \<Rightarrow> 180000 | Some ms \<Rightarrow> ms) div 1000;
               new_song =
                 \<lparr>title = (if r_name raw \<noteq> [] then r_name raw else r_title raw),
                  artist = (case r_artists raw of
                              Some names \<Rightarrow> join_names names
                            | None \<Rightarrow> (case r_artist raw of None \<Rightarrow> ''Unknown Artist'' | Some a \<Rightarrow> a)),
                  album = (case r_album_name raw of None \<Rightarrow> ''Unknown Album'' | Some a \<Rightarrow> a),
                  played = Some now,
                  albumart = r_album_image raw,
                  spotifyID = the_id,
                  requester = requester_name,
                  apprequest = appreq,
                  external_url = (case r_spotify_url raw of None \<Rightarrow> [] | Some u \<Rightarrow> u),
                  ID = Some the_id,
                  release_date = (case r_release_date raw of None \<Rightarrow> ''N/A'' | Some d \<Rightarrow> d),
                  durationsec = secs, position = 0, remaining = secs\<rparr>
           in st\<lparr>next_coming_file := Single new_song\<rparr>))"

text \<open>\<open>get_next_coming_data\<close> rewrites a list as its first element; the dataclass it returns
  is not modelled.\<close>

definition get_next_coming_data :: "station \<Rightarrow> station" where
  "get_next_coming_data st =
     (case next_coming_file st of
        Listed (s # rest) \<Rightarrow> st\<lparr>next_coming_file := Single s\<rparr>
      | _ \<Rightarrow> st)"

text \<open>\<open>add_to_history\<close>: the record of the now-playing file, if it has an \<open>"ID"\<close>, is stored
  under it.  (The \<open>del\<close> before the assignment moves the entry to the end of the
  dictionary, which a map does not record.)\<close>

definition add_to_history :: "station \<Rightarrow> station" where
  "add_to_history st =
     (case (case now_playing_file st of
              Empty \<Rightarrow> None | Single s \<Rightarrow> Some s | Listed [] \<Rightarrow> None | Listed (s # rest) \<Rightarrow> Some s) of
        None \<Rightarrow> st
      | Some s \<Rightarrow>
          (case ID s of
             None \<Rightarrow> st
           | Some sid \<Rightarrow>
               st\<lparr>history_file := (history_file st)(sid \<mapsto>
                    \<lparr>h_title = title s, h_artist = artist s, h_played = played s,
                     h_spotifyID = spotifyID s\<rparr>)\<rparr>))"

text \<open>\<open>update_position_and_remaining\<close>, in two steps: the start, which loads the file and
  validates it, and one round of its loop, which writes the copy back.\<close>

definition ticker_start :: "station \<Rightarrow> station" where
  "ticker_start st =
     (let data = now_playing_file st
      in case (case data of Empty \<Rightarrow> None | Single s \<Rightarrow> Some s | Listed [] \<Rightarrow> None
                 | Listed (s # rest) \<Rightarrow> Some s) of
           None \<Rightarrow> st\<lparr>ticker_data := None\<rparr>
         | Some item \<Rightarrow>
             if durationsec item \<le> 0 then st\<lparr>ticker_data := None\<rparr>
             else st\<lparr>ticker_data := Some (data, 0)\<rparr>)"

definition ticker_round :: "station \<Rightarrow> station" where
  "ticker_round st =
     (case ticker_data st of
        None \<Rightarrow> st
      | Some (data, second) \<Rightarrow>
          (case data of
             Single item \<Rightarrow>
               if second < durationsec item - 1
               then let data' = Single (item\<lparr>position := second, remaining := durationsec item - second\<rparr>)
                    in st\<lparr>now_playing_file := data', ticker_data := Some (data', second + 1)\<rparr>
               else st\<lparr>ticker_data := None\<rparr>
           | Listed (item # rest) \<Rightarrow>
               if second < durationsec item - 1
               then let data' = Listed (item\<lparr>position := second, remaining := durationsec item - second\<rparr> # rest)
                    in st\<lparr>now_playing_file := data', ticker_data := Some (data', second + 1)\<rparr>
               else st\<lparr>ticker_data := None\<rparr>
           | _ \<Rightarrow> st\<lparr>ticker_data := None\<rparr>))"

text \<open>\<open>build_now_playing_from_file\<close> writes a list of one record, built from the next-coming
  record or from the tags of the file (the parameter \<open>record_built\<close>).\<close>

definition build_now_playing_from_file :: "station \<Rightarrow> song \<Rightarrow> station" where
  "build_now_playing_from_file st record_built = st\<lparr>now_playing_file := Listed [record_built]\<rparr>"

section \<open>Selection and acquisition (\<open>config/DJ.py\<close>)\<close>

text \<open>\<open>download_song_from_id\<close>, manual path: \<open>save_json(next_coming_file, [youtube_metadata])\<close>.\<close>

definition save_youtube_metadata :: "station \<Rightarrow> song \<Rightarrow> station" where
  "save_youtube_metadata st youtube_metadata = st\<lparr>next_coming_file := Listed [youtube_metadata]\<rparr>"

text \<open>After the download: the duration is written into the last element when the file
  holds a non-empty list.\<close>

definition update_duration :: "station \<Rightarrow> int \<Rightarrow> station" where
  "update_duration st dur =
     (case next_coming_file st of
        Listed xs \<Rightarrow>
          if xs \<noteq> []
          then st\<lparr>next_coming_file :=
                 Listed (butlast xs @ [(last xs)\<lparr>durationsec := dur, remaining := dur\<rparr>])\<rparr>
          else st
      | _ \<Rightarrow> st)"

text \<open>What \<open>pl.next_song()\<close> returns: a dictionary with or without \<open>"message"\<close>, with
  \<open>"track_id"\<close> and \<open>"id"\<close> (\<open>[]\<close> when absent), and the view \<open>save_to_next_coming\<close> has of it.\<close>

record candidate =
  c_message :: "string option"
  c_track_id :: string
  c_id :: string
  c_title :: string
  c_artist :: string
  c_data :: track_data

definition contains :: "string \<Rightarrow> string \<Rightarrow> bool" where
  "contains s sub = list_ex (\<lambda>i. take (length sub) (drop i s) = sub) [0 ..< Suc (length s)]"

datatype selection = NothingAvailable | Selected candidate

text \<open>The loop \<open>while True\<close> of the playlist selection, over the candidates that the
  successive calls of \<open>pl.next_song()\<close> return, each with the time at which its history
  check runs.  \<open>None\<close>: the loop has not returned after these calls.\<close>

fun playlist_selection :: "station \<Rightarrow> (int \<times> candidate) list \<Rightarrow> (exn + selection) option" where
  "playlist_selection st [] = None"
| "playlist_selection st ((now, track) # rest) =
     (let track_id = (if c_track_id track \<noteq> [] then c_track_id track else c_id track)
      in if c_message track \<noteq> None \<or> track_id = []
         then (case c_message track of
                 Some m \<Rightarrow> if contains m ''No tracks available'' then Some (Inr NothingAvailable)
                           else playlist_selection st rest
               | None \<Rightarrow> playlist_selection st rest)
         else if is_song_blocked st track_id then playlist_selection st rest
         else case track_already_played_id st now track_id of
                Inl e \<Rightarrow> Some (Inl e)
              | Inr recently \<Rightarrow>
                  if recently then playlist_selection st rest
                  else Some (Inr (Selected track)))"

text \<open>\<open>get_next_song_from_AIplaylist\<close>.  The AI attempt is a string literal, not code, so
  \<open>track\<close> is still \<open>None\<close> at the test and the playlist loop always runs; then the
  selected track is written into the next-coming file.  (Were the test false, the code
  after it would read attributes of \<open>None\<close>.)\<close>

definition get_next_song_from_AIplaylist ::
    "station \<Rightarrow> nat \<Rightarrow> int \<Rightarrow> (int \<times> candidate) list \<Rightarrow> ((exn + selection) \<times> station) option" where
  "get_next_song_from_AIplaylist st ai_playlist_switch_counter now_saved feed =
     (let is_ai_turn = (ai_playlist_switch_counter < 2);
          track = (None :: candidate option)
      in if \<not> is_ai_turn \<or> track = None
         then (case playlist_selection st feed of
                 None \<Rightarrow> None
               | Some (Inl e) \<Rightarrow> Some (Inl e, st)
               | Some (Inr NothingAvailable) \<Rightarrow> Some (Inr NothingAvailable, st)
               | Some (Inr (Selected t)) \<Rightarrow>
                   Some (Inr (Selected t),
                         get_next_coming_data (save_to_next_coming now_saved st (c_data t) ''PewDJ'' [])))
         else Some (Inl AttributeError, st))"

section \<open>Promotions (\<open>main.py\<close>)\<close>

text \<open>\<open>save_json(now_playing_file, promo_metadata)\<close> before a promotion is streamed.\<close>

definition save_promo_metadata :: "station \<Rightarrow> song \<Rightarrow> station" where
  "save_promo_metadata st promo_metadata = st\<lparr>now_playing_file := Single promo_metadata\<rparr>"

section \<open>Every writer of the two playback files\<close>

datatype op =
    MoveToNowPlaying
  | AddToHistory
  | SaveToNextComing int track_data string string
  | GetNextComingData
  | TickerStart
  | TickerRound
  | BuildNowPlaying song
  | SaveYoutubeMetadata song
  | UpdateDuration int
  | SavePromoMetadata song

fun exec :: "station \<Rightarrow> op \<Rightarrow> station" where
  "exec st MoveToNowPlaying = move_to_now_playing st"
| "exec st AddToHistory = add_to_history st"
| "exec st (SaveToNextComing now d r a) = save_to_next_coming now st d r a"
| "exec st GetNextComingData = get_next_coming_data st"
| "exec st TickerStart = ticker_start st"
| "exec st TickerRound = ticker_round st"
| "exec st (BuildNowPlaying s) = build_now_playing_from_file st s"
| "exec st (SaveYoutubeMetadata s) = save_youtube_metadata st s"
| "exec st (UpdateDuration d) = update_duration st d"
| "exec st (SavePromoMetadata s) = save_promo_metadata st s"

text \<open>The number of records a playback file holds.\<close>

fun records :: "slot \<Rightarrow> nat" where
  "records Empty = 0"
| "records (Single s) = 1"
| "records (Listed xs) = length xs"

definition at_most_one :: "station \<Rightarrow> bool" where
  "at_most_one st =
     (records (now_playing_file st) \<le> 1 \<and> records (next_coming_file st) \<le> 1
      \<and> (case ticker_data st of None \<Rightarrow> True | Some (data, second) \<Rightarrow> records data \<le> 1))"

text \<open>The operations that are not one of the two writers of the next-coming file used by
  an acquisition.\<close>

fun writes_next :: "op \<Rightarrow> bool" where
  "writes_next (SaveToNextComing now d r a) = True"
| "writes_next (SaveYoutubeMetadata s) = True"
| "writes_next _ = False"

section \<open>Unified downloader (\<open>config/downloaders/unified_downloader.py\<close>)\<close>

text \<open>What a call of a collaborator does: it raises, or it returns a value.\<close>

datatype 'a outcome = Raises | Returns 'a

text \<open>The dictionary a provider search returns; \<open>hit_url\<close> is \<open>[]\<close> when the key \<open>"url"\<close> is
  absent, \<open>None\<close> or empty.\<close>

record hit =
  hit_url :: string
  hit_duration :: "int option"

text \<open>The collaborators of \<open>download_song\<close>: the cache manager (not part of the sources at
  hand), the length reader of the MP3 library, the two provider searches and fetches, and
  the video-platform download.  An optional path is \<open>None\<close> for Python's \<open>None\<close>.\<close>

record collaborators =
  get_from_cache :: "string \<Rightarrow> string option outcome"
  mp3_length :: "string \<Rightarrow> int outcome"
  jiosaavn_get_song_by_name :: "string \<Rightarrow> hit option outcome"
  download_from_url :: "string \<Rightarrow> string \<Rightarrow> string option outcome"
  soundcloud_get_song_by_name :: "string \<Rightarrow> hit option outcome"
  soundcloud_download_from_url :: "string \<Rightarrow> string \<Rightarrow> string option outcome"
  get_cached_path :: "string \<Rightarrow> string outcome"
  add_to_cache :: "string \<Rightarrow> string \<Rightarrow> bool outcome"
  download_from_youtube :: "string \<Rightarrow> string \<Rightarrow> int option \<Rightarrow> string \<Rightarrow> string option outcome"
  get_random_from_cache :: "string option outcome"

text \<open>The returned dictionary; the key \<open>"duration"\<close> is absent for the last two sources.\<close>

record download_result =
  path :: string
  source :: string
  result_title :: string
  result_duration :: "int option"

datatype step = Cache | JioSaavn | SoundCloud | YouTube | CacheFallback

definition truthy_path :: "string option \<Rightarrow> bool" where
  "truthy_path p = (case p of None \<Rightarrow> False | Some s \<Rightarrow> s \<noteq> [])"

definition truthy_hit :: "hit option \<Rightarrow> bool" where
  "truthy_hit h = (case h of None \<Rightarrow> False | Some x \<Rightarrow> hit_url x \<noteq> [])"

text \<open>The four steps after the cache lookup.  Each returns the dictionary that
  \<open>download_song\<close> returns at that step, or \<open>None\<close> when the step falls through; an
  exception inside the step's \<open>try\<close> falls through.\<close>

definition try_jiosaavn :: "collaborators \<Rightarrow> string \<Rightarrow> string \<Rightarrow> download_result option" where
  "try_jiosaavn c search_query the_title =
     (case jiosaavn_get_song_by_name c search_query of
        Raises \<Rightarrow> None
      | Returns js_result \<Rightarrow>
          if truthy_hit js_result
          then (case download_from_url c (hit_url (the js_result)) the_title of
                  Raises \<Rightarrow> None
                | Returns download_path \<Rightarrow>
                    if truthy_path download_path
                    then Some \<lparr>path = the download_path, source = ''jiosaavn'',
                               result_title = the_title,
                               result_duration = hit_duration (the js_result)\<rparr>
                    else None)
          else None)"

definition try_soundcloud :: "collaborators \<Rightarrow> string \<Rightarrow> string \<Rightarrow> string \<Rightarrow> download_result option" where
  "try_soundcloud c search_query the_title output_path =
     (case soundcloud_get_song_by_name c search_query of
        Raises \<Rightarrow> None
      | Returns sc_result \<Rightarrow>
          if truthy_hit sc_result
          then (case soundcloud_download_from_url c (hit_url (the sc_result)) output_path of
                  Raises \<Rightarrow> None
                | Returns download_path \<Rightarrow>
                    if truthy_path download_path
                    then (case get_cached_path c the_title of
                            Raises \<Rightarrow> None
                          | Returns cached_path \<Rightarrow>
                              (case add_to_cache c (the download_path) the_title of
                                 Raises \<Rightarrow> None
                               | Returns added \<Rightarrow>
                                   Some \<lparr>path = cached_path, source = ''soundcloud'',
                                         result_title = the_title,
                                         result_duration = hit_duration (the sc_result)\<rparr>))
                    else None)
          else None)"

definition try_youtube ::
    "collaborators \<Rightarrow> string \<Rightarrow> string \<Rightarrow> int option \<Rightarrow> string \<Rightarrow> download_result option" where
  "try_youtube c search_query the_title expected_duration youtube_url' =
     (case download_from_youtube c search_query the_title expected_duration youtube_url' of
        Raises \<Rightarrow> None
      | Returns yt_path \<Rightarrow>
          if truthy_path yt_path
          then Some \<lparr>path = the yt_path, source = ''youtube'', result_title = the_title,
                     result_duration = None\<rparr>
          else None)"

text \<open>\<open>basename\<close> is \<open>os.path.basename(p).replace('.mp3', '')\<close>.\<close>

definition try_cache_fallback :: "collaborators \<Rightarrow> (string \<Rightarrow> string) \<Rightarrow> download_result option" where
  "try_cache_fallback c basename =
     (case get_random_from_cache c of
        Raises \<Rightarrow> None
      | Returns random_cached \<Rightarrow>
          if truthy_path random_cached
          then Some \<lparr>path = the random_cached, source = ''cache_fallback'',
                     result_title = basename (the random_cached), result_duration = None\<rparr>
          else None)"




definition titles :: "string \<Rightarrow> string \<Rightarrow> string \<times> string" where
  "titles song_name artist_name =
     (if artist_name \<noteq> [] then (song_name @ '' - '' @ artist_name, song_name @ '' '' @ artist_name)
      else (song_name, song_name))"

definition valid :: "collaborators \<Rightarrow> (string \<Rightarrow> string) \<Rightarrow> (string \<Rightarrow> string) \<Rightarrow> string \<Rightarrow> string
     \<Rightarrow> int option \<Rightarrow> string \<Rightarrow> step \<Rightarrow> bool" where
  "valid c outp b sn an ed yu s =
     (let the_title = fst (titles sn an); search_query = snd (titles sn an)
      in case s of
           Cache \<Rightarrow>
             (case get_from_cache c the_title of Raises \<Rightarrow> False | Returns p \<Rightarrow> truthy_path p)
         | JioSaavn \<Rightarrow>
             (case jiosaavn_get_song_by_name c search_query of
                Raises \<Rightarrow> False
              | Returns found \<Rightarrow>
                  truthy_hit found \<and>
                  (case download_from_url c (hit_url (the found)) the_title of
                     Raises \<Rightarrow> False | Returns p \<Rightarrow> truthy_path p))
         | SoundCloud \<Rightarrow>
             (case soundcloud_get_song_by_name c search_query of
                Raises \<Rightarrow> False
              | Returns found \<Rightarrow>
                  truthy_hit found \<and>
                  (case soundcloud_download_from_url c (hit_url (the found)) (outp the_title) of
                     Raises \<Rightarrow> False
                   | Returns p \<Rightarrow>
                       truthy_path p \<and> get_cached_path c the_title \<noteq> Raises
                       \<and> add_to_cache c (the p) the_title \<noteq> Raises))
         | YouTube \<Rightarrow>
             (case download_from_youtube c search_query the_title ed yu of
                Raises \<Rightarrow> False | Returns p \<Rightarrow> truthy_path p)
         | CacheFallback \<Rightarrow>
             (case get_random_from_cache c of Raises \<Rightarrow> False | Returns p \<Rightarrow> truthy_path p))"


section \<open>Named tasks (\<open>TaskGroup\<close> in \<open>config/DJ.py\<close>)\<close>

text \<open>An \<open>asyncio\<close> task as the supervisor sees it: pending (scheduled or running), with a
  cancellation requested by \<open>cancel()\<close> and not yet unwound, or done.  A task whose
  cancellation was requested gets \<open>CancelledError\<close> at its next resumption; it runs no further
  step of its work, so it is not live.\<close>

datatype status = Pending | Cancelling | Done

record task =
  task_id :: nat
  task_name :: string
  work :: string
  status :: status

datatype action = CancelRequested nat | Started nat

text \<open>The set \<open>_tasks\<close> (the identities are the \<open>task_id\<close>s), the counter from which
  \<open>asyncio\<close> numbers new tasks, and the calls made so far.\<close>

record taskgroup =
  tasks :: "task list"
  next_id :: nat
  calls :: "action list"

text \<open>\<open>Task.cancel()\<close>: no effect on a task that is done.\<close>

definition cancel :: "task \<Rightarrow> task" where
  "cancel t = (if status t = Done then t else t\<lparr>status := Cancelling\<rparr>)"

text \<open>\<open>create_task\<close>: the new task carries the default name \<open>asyncio\<close> gives it.\<close>

definition create_task :: "taskgroup \<Rightarrow> string \<Rightarrow> string \<Rightarrow> taskgroup \<times> nat" where
  "create_task tg coro default_name =
     (tg\<lparr>tasks := tasks tg @ [\<lparr>task_id = next_id tg, task_name = default_name, work = coro,
                                 status = Pending\<rparr>],
         next_id := Suc (next_id tg),
         calls := calls tg @ [Started (next_id tg)]\<rparr>,
      next_id tg)"

definition set_name :: "taskgroup \<Rightarrow> nat \<Rightarrow> string \<Rightarrow> taskgroup" where
  "set_name tg i n = tg\<lparr>tasks := map (\<lambda>t. if task_id t = i then t\<lparr>task_name := n\<rparr> else t) (tasks tg)\<rparr>"

definition manage_task :: "taskgroup \<Rightarrow> string \<Rightarrow> string \<Rightarrow> string \<Rightarrow> taskgroup" where
  "manage_task tg name coro_func default_name =
     (let task_list = tasks tg;
          cancelled = map (\<lambda>t. if task_name t = name then cancel t else t) task_list;
          requests = map (\<lambda>t. CancelRequested (task_id t)) (filter (\<lambda>t. task_name t = name) task_list);
          (tg', new_task) =
             create_task (tg\<lparr>tasks := cancelled, calls := calls tg @ requests\<rparr>) coro_func default_name
      in set_name tg' new_task name)"

text \<open>What the event loop does to a task: it finishes (returns, or unwinds after a
  cancellation), and the done callback discards it from the set.\<close>

definition finish :: "taskgroup \<Rightarrow> nat \<Rightarrow> taskgroup" where
  "finish tg i = tg\<lparr>tasks := map (\<lambda>t. if task_id t = i then t\<lparr>status := Done\<rparr> else t) (tasks tg)\<rparr>"

definition discard :: "taskgroup \<Rightarrow> nat \<Rightarrow> taskgroup" where
  "discard tg i = tg\<lparr>tasks := filter (\<lambda>t. \<not> (task_id t = i \<and> status t = Done)) (tasks tg)\<rparr>"

datatype tg_op = Manage string string string | Finish nat | Discard nat

fun tg_exec :: "taskgroup \<Rightarrow> tg_op \<Rightarrow> taskgroup" where
  "tg_exec tg (Manage name coro dflt) = manage_task tg name coro dflt"
| "tg_exec tg (Finish i) = finish tg i"
| "tg_exec tg (Discard i) = discard tg i"

definition live :: "taskgroup \<Rightarrow> string \<Rightarrow> task list" where
  "live tg name = filter (\<lambda>t. task_name t = name \<and> status t = Pending) (tasks tg)"

definition empty_group :: taskgroup where
  "empty_group = \<lparr>tasks = [], next_id = 0, calls = []\<rparr>"

text \<open>The identities in the set are those of tasks created so far.\<close>

definition ids_fresh :: "taskgroup \<Rightarrow> bool" where
  "ids_fresh tg = list_all (\<lambda>t. task_id t < next_id tg) (tasks tg)"

section \<open>Streaming (\<open>main.py\<close>)\<close>

text \<open>The skip object of \<open>config.BG_process_status\<close> (not part of the sources at hand), with
  the two attributes that \<open>stream_single_file\<close> uses.\<close>

record flags =
  skip_status :: bool
  stop_counter :: bool

text \<open>The one-shot action of the request-routing layer: \<open>skip.skip_status = True\<close>.\<close>

definition set_skip_flag :: "flags \<Rightarrow> flags" where
  "set_skip_flag fl = fl\<lparr>skip_status := True\<rparr>"

text \<open>What happens, in order, while the loop runs.\<close>

datatype event =
    Connect | HandshakeFailed
  | StreamStart string | FileNotFound string
  | CheckSkip | Forward string | SkipTriggered | WriterDisconnected | Terminate
  | Finished | StreamError
  | MarkLost
  | PromoSaved string | BroadcastPromo string | PromoMetadataUpdate string
  | BroadcastNowPlayingAfterPromo | UpdatePlayStats | ResetSongCount
  | ManageTask string
  | HistoryAppend | Promote | BroadcastNextCleared | BroadcastNowPlaying
  | MetadataUpdate | BroadcastQueue | IncrementSongCount
  | CycleError
  | NothingToStream

text \<open>One round of the chunk loop, as the environment determines it: whether
  \<open>proc.stdout.read\<close> raises, the chunk it returns otherwise (\<open>[]\<close> at the end of the file),
  whether some client set the skip flag while that read was awaited, what the write and
  drain of the chunk do (a broken pipe or connection reset, some other exception, or
  success), and whether \<open>proc.terminate()\<close> raises when the handler of a lost writer calls
  it: the subprocess transport of \<open>asyncio\<close> raises \<open>ProcessLookupError\<close> once the subprocess
  has exited and its pipes are closed, which is the case while the last chunks that it
  wrote are still being forwarded.\<close>

datatype writing = Written | ConnectionLost | OtherFailure

record round =
  read_raises :: bool
  data :: string
  skip_set :: bool
  writing :: writing
  terminate_raises :: bool

text \<open>The loop \<open>while True\<close> of \<open>stream_single_file\<close> over the rounds of one file; when the
  rounds are used up the next read is the end of the file.  \<open>still_running\<close> is
  \<open>proc.returncode is None\<close> after the loop.  The result is what the function returns, the
  skip object afterwards, and the events.  An exception other than the two that the inner
  handler names, and an exception that the inner handler itself raises, is caught by the
  outer handler, which returns \<open>True\<close>.  After the loop \<open>proc.terminate()\<close> is called only if
  \<open>proc.returncode is None\<close>, where it does not raise.\<close>

fun chunk_loop :: "bool \<Rightarrow> bool \<Rightarrow> flags \<Rightarrow> round list \<Rightarrow> bool \<times> flags \<times> event list" where
  "chunk_loop is_promo still_running skip [] =
     (True, skip, Finished # (if still_running then [Terminate] else []))"
| "chunk_loop is_promo still_running skip (r # rest) =
     (let skip1 = (if skip_set r then set_skip_flag skip else skip)
      in if read_raises r then (True, skip1, [StreamError])
         else if data r = [] then (True, skip1, Finished # (if still_running then [Terminate] else []))
         else if skip_status skip1 \<and> \<not> is_promo
           then (True, skip1\<lparr>skip_status := False, stop_counter := True\<rparr>,
                 CheckSkip # SkipTriggered # (if still_running then [Terminate] else []))
         else (case writing r of
                 ConnectionLost \<Rightarrow>
                   if terminate_raises r then (True, skip1, [CheckSkip, WriterDisconnected, StreamError])
                   else (False, skip1, [CheckSkip, WriterDisconnected, Terminate])
               | OtherFailure \<Rightarrow> (True, skip1, [CheckSkip, StreamError])
               | Written \<Rightarrow>
                   (let (ok, skip2, evs) = chunk_loop is_promo still_running skip1 rest
                    in (ok, skip2, CheckSkip # Forward (data r) # evs))))"

text \<open>How the stream of one file goes once it is started: whether the subprocess can be
  created, the rounds, and whether the subprocess still runs after the loop.\<close>

record stream_env =
  spawned :: bool
  rounds :: "round list"
  still_running :: bool

definition stream_single_file ::
    "string \<Rightarrow> bool \<Rightarrow> bool \<Rightarrow> flags \<Rightarrow> stream_env \<Rightarrow> bool \<times> flags \<times> event list" where
  "stream_single_file file_path is_promo exists skip env =
     (if \<not> exists then (True, skip, [FileNotFound file_path])
      else if \<not> spawned env then (True, skip, [StreamStart file_path, StreamError])
      else let (ok, skip', evs) = chunk_loop is_promo (still_running env) skip (rounds env)
           in (ok, skip', StreamStart file_path # evs))"

text \<open>The statements between \<open>try\<close> and \<open>except\<close> that follow the stream of a file, as a
  list in program order.  \<open>fails e\<close>: the call behind \<open>e\<close> raises, which ends the block in
  its handler.  The now-playing broadcast is made only if \<open>get_now_playing_data\<close> returns a
  record.\<close>

definition cycle_steps :: "event list" where
  "cycle_steps = [HistoryAppend, Promote, BroadcastNextCleared, BroadcastNowPlaying, MetadataUpdate,
                  BroadcastQueue, ManageTask ''update_position'', IncrementSongCount]"

fun run_steps :: "(event \<Rightarrow> bool) \<Rightarrow> event list \<Rightarrow> station \<Rightarrow> station \<times> event list" where
  "run_steps fails [] st = (st, [])"
| "run_steps fails (e # es) st =
     (if e = BroadcastNowPlaying \<and> \<not> truthy (now_playing_file st) then run_steps fails es st
      else if fails e then (st, [CycleError])
      else let st1 = (if e = HistoryAppend then add_to_history st
                      else if e = Promote then move_to_now_playing st
                      else st);
               (st2, evs) = run_steps fails es st1
           in (st2, e # evs))"

definition cycle :: "(event \<Rightarrow> bool) \<Rightarrow> station \<Rightarrow> station \<times> event list" where
  "cycle fails st = run_steps fails cycle_steps st"

text \<open>\<open>connect_to_icecast\<close> over the answers of the relay to the successive handshakes
  (\<open>True\<close>: \<open>200 OK\<close>); \<open>None\<close> when it is still retrying after these.\<close>

fun connect_to_icecast :: "bool list \<Rightarrow> event list option" where
  "connect_to_icecast [] = None"
| "connect_to_icecast (accepted # later) =
     (if accepted then Some [Connect]
      else map_option (\<lambda>evs. HandshakeFailed # evs) (connect_to_icecast later))"

record promotion =
  audio_path :: string
  promo_metadata :: song
  promo_stream :: stream_env

record loop_state =
  connected :: bool
  skip :: flags
  playlist :: "string list"
  files :: station

text \<open>What one round of \<open>while True\<close> in \<open>stream_audio_loop\<close> meets.\<close>

record loop_env =
  handshakes :: "bool list"
  should_play_promo :: bool
  active_promos :: "promotion list"
  path_exists :: "string \<Rightarrow> bool"
  silence_file :: "string option"
  downloaded :: "string list"
  song_stream :: stream_env
  fails :: "event \<Rightarrow> bool"

text \<open>The loop \<open>for promo in active_promos\<close>.  The promotion is streamed by
  \<open>stream_single_file(promo_path, self.writer)\<close>, so with \<open>is_promo\<close> at its default
  \<open>False\<close>; the \<open>continue\<close> after a lost connection goes on with the next promotion.\<close>

fun play_promos :: "loop_env \<Rightarrow> loop_state \<Rightarrow> promotion list \<Rightarrow> loop_state \<times> event list" where
  "play_promos env st [] = (st, [])"
| "play_promos env st (promo # later) =
     (if path_exists env (audio_path promo)
      then
        (let st1 = st\<lparr>files := save_promo_metadata (files st) (promo_metadata promo)\<rparr>;
             before = [PromoSaved (audio_path promo), BroadcastPromo (audio_path promo),
                       PromoMetadataUpdate (audio_path promo)];
             (ok, skip', evs) = stream_single_file (audio_path promo) False True (skip st1) (promo_stream promo);
             st2 = st1\<lparr>skip := skip'\<rparr>
         in if \<not> ok
            then (let (st3, trailing) = play_promos env (st2\<lparr>connected := False\<rparr>) later
                  in (st3, before @ evs @ [MarkLost] @ trailing))
            else
              (let after =
                     (if truthy (now_playing_file (files st2))
                      then (if fails env BroadcastNowPlayingAfterPromo then [CycleError]
                            else [BroadcastNowPlayingAfterPromo, UpdatePlayStats])
                      else [UpdatePlayStats]);
                   (st3, trailing) = play_promos env st2 later
               in (st3, before @ evs @ after @ trailing)))
      else play_promos env st later)"

text \<open>\<open>SongAdder.add_song\<close> (\<open>config/DJ.py\<close>), by which the download task appends a file
  to \<open>playlist.txt\<close> unless it is listed already.\<close>

definition add_song :: "string list \<Rightarrow> string \<Rightarrow> string list" where
  "add_song existing file_path = (if file_path \<in> set existing then existing else existing @ [file_path])"

text \<open>\<open>get_next_song\<close>: the first line of \<open>playlist.txt\<close> is removed from the file and
  returned if that file exists.  \<open>downloaded env\<close> are the files that the download task
  has added since the last read.\<close>

definition get_next_song :: "loop_env \<Rightarrow> loop_state \<Rightarrow> string option \<times> loop_state" where
  "get_next_song env st =
     (case foldl add_song (playlist st) (downloaded env) of
        [] \<Rightarrow> (None, st\<lparr>playlist := []\<rparr>)
      | next_song # lines \<Rightarrow>
          (if path_exists env next_song then Some next_song else None, st\<lparr>playlist := lines\<rparr>))"

text \<open>The body of \<open>while True\<close> in \<open>stream_audio_loop\<close>, in the three parts the source
  marks: the connection, the promotion check and playback, and the normal stream flow.\<close>

definition promotion_check :: "loop_env \<Rightarrow> loop_state \<Rightarrow> loop_state \<times> event list" where
  "promotion_check env st =
     (if should_play_promo env
      then (if active_promos env \<noteq> []
            then (let (s, e) = play_promos env st (active_promos env)
                  in (s, e @ [ResetSongCount]))
            else (st, [ResetSongCount]))
      else (st, []))"

definition normal_stream_flow :: "loop_env \<Rightarrow> loop_state \<Rightarrow> loop_state \<times> event list" where
  "normal_stream_flow env st =
     (let (next_song, st3) = get_next_song env st;
          song_path = (case next_song of Some p \<Rightarrow> Some p | None \<Rightarrow> silence_file env)
      in case song_path of
           None \<Rightarrow> (st3, [ManageTask ''song_downloader'', NothingToStream])
         | Some p \<Rightarrow>
             (let (ok, skip', sev) = stream_single_file p False (path_exists env p) (skip st3) (song_stream env);
                  (files', cev) = cycle (fails env) (files st3);
                  st4 = st3\<lparr>skip := skip', files := files'\<rparr>
              in (if ok then st4 else st4\<lparr>connected := False\<rparr>,
                  ManageTask ''song_downloader'' # sev @ cev @ (if ok then [] else [MarkLost]))))"

text \<open>One round; \<open>None\<close> when the connection attempt has not returned.\<close>

definition loop_round :: "loop_env \<Rightarrow> loop_state \<Rightarrow> (loop_state \<times> event list) option" where
  "loop_round env st =
     (case (if connected st then Some [] else connect_to_icecast (handshakes env)) of
        None \<Rightarrow> None
      | Some ev0 \<Rightarrow>
          (let (st2, ev1) = promotion_check env (st\<lparr>connected := True\<rparr>);
               (st5, ev2) = normal_stream_flow env st2
           in Some (st5, ev0 @ ev1 @ ev2)))"

text \<open>The events of a list that are forwarded chunks.\<close>

definition forwarded :: "event list \<Rightarrow> string list" where
  "forwarded evs = concat (map (\<lambda>e. case e of Forward c \<Rightarrow> [c] | _ \<Rightarrow> []) evs)"

text \<open>A round that passes: the read returns a chunk, nobody set the flag, and the write
  succeeds.\<close>

definition passes :: "round \<Rightarrow> bool" where
  "passes r = (\<not> read_raises r \<and> data r \<noteq> [] \<and> writing r = Written \<and> \<not> skip_set r)"

text \<open>An event that is a step of the cycle.\<close>

definition in_cycle :: "event \<Rightarrow> bool" where
  "in_cycle e = (e \<in> set cycle_steps)"

text \<open>A queue of three requests, and a station that holds it.\<close>

definition mk_request :: "int \<Rightarrow> string \<Rightarrow> string \<Rightarrow> string \<Rightarrow> request" where
  "mk_request i t sid who =
     \<lparr>title = t, artist = ''artist'', album = ''album'', played = Some 0, albumart = None,
      spotifyID = sid, requester = who, apprequest = ''1'', external_url = [],
      req_id = Some i, duration = 200000, youtube_url = []\<rparr>"

definition q3 :: requests where
  "q3 = [(1, mk_request 1 ''a'' ''A'' ''u1''),
         (2, mk_request 2 ''b'' ''B'' ''u2''),
         (3, mk_request 3 ''c'' ''C'' ''u3'')]"

definition hist :: "int \<Rightarrow> history_entry" where
  "hist t = \<lparr>h_title = ''b'', h_artist = ''artist'', h_played = Some t, h_spotifyID = ''B''\<rparr>"

definition st3 :: station where
  "st3 = \<lparr>requests_file = q3, now_playing_file = Empty, next_coming_file = Empty,
          history_file = Map.empty, blocked_songs = {}, ticker_data = None\<rparr>"

definition catalog :: "string \<Rightarrow> string + catalog_track" where
  "catalog i = Inr \<lparr>t_id = i, t_name = ''name'', t_artists = ''artist'', t_album = ''album'',
                    t_duration_ms = 200000, t_image = None, t_external_url = []\<rparr>"

definition by_id :: "string \<Rightarrow> submission" where
  "by_id i = \<lparr>song_id = i, sub_requester = ''u9'', app = [], sub_youtube_url = [],
              m_title = [], m_artist = [], m_album = [], m_duration = 0, m_albumart = []\<rparr>"

definition manual :: "string \<Rightarrow> submission" where
  "manual i = \<lparr>song_id = i, sub_requester = ''u9'', app = [], sub_youtube_url = ''http://v'',
               m_title = ''t'', m_artist = ''a'', m_album = [], m_duration = 200, m_albumart = []\<rparr>"

text \<open>A station whose history records a play of \<open>B\<close> and of \<open>youtube_x\<close> at time 0.\<close>

definition st_hist :: station where
  "st_hist = \<lparr>requests_file = [], now_playing_file = Empty, next_coming_file = Empty,
          history_file = [''B'' \<mapsto> hist 0, ''youtube_x'' \<mapsto> hist 0],
          blocked_songs = {}, ticker_data = None\<rparr>"

definition cand :: "string \<Rightarrow> candidate" where
  "cand i = \<lparr>c_message = None, c_track_id = i, c_id = [], c_title = ''t'', c_artist = ''a'',
             c_data = Wrapped (Some \<lparr>r_id = i, r_track_id = [], r_name = ''t'', r_title = [],
                r_artists = Some [''a''], r_artist = None, r_album_name = Some ''al'',
                r_album_image = None, r_release_date = None, r_duration_ms = Some 200000,
                r_spotify_url = None\<rparr>)\<rparr>"

definition two_hours :: int where
  "two_hours = 2 * 3600 * 1000000"

definition a_song :: "string \<Rightarrow> song" where
  "a_song i = \<lparr>title = ''t'', artist = ''a'', album = ''al'', played = Some 0, albumart = None,
      spotifyID = i, requester = ''u1'', apprequest = [], external_url = [],
      ID = Some i, release_date = [], durationsec = 200, position = 0, remaining = 200\<rparr>"

text \<open>The metadata the loop saves for a promotion: no \<open>"ID"\<close> and no duration.\<close>

definition promo_song :: "string \<Rightarrow> song" where
  "promo_song n = \<lparr>title = n, artist = ''promoter'', album = ''description'', played = None,
      albumart = None, spotifyID = [], requester = [], apprequest = [], external_url = [],
      ID = None, release_date = [], durationsec = 0, position = 0, remaining = 0\<rparr>"

definition st_next :: station where
  "st_next = \<lparr>requests_file = [], now_playing_file = Single (a_song ''A''),
          next_coming_file = Single (a_song ''B''),
          history_file = Map.empty, blocked_songs = {}, ticker_data = None\<rparr>"








text \<open>Rounds and streams for the examples.\<close>

definition plain :: "string \<Rightarrow> round" where
  "plain c = \<lparr>read_raises = False, data = c, skip_set = False, writing = Written,
               terminate_raises = False\<rparr>"

definition skipped :: "string \<Rightarrow> round" where
  "skipped c = \<lparr>read_raises = False, data = c, skip_set = True, writing = Written,
               terminate_raises = False\<rparr>"

definition broken :: "string \<Rightarrow> round" where
  "broken c = \<lparr>read_raises = False, data = c, skip_set = False, writing = ConnectionLost,
               terminate_raises = False\<rparr>"

text \<open>A write that meets a reset connection after the subprocess has exited, and the read
  at the end of the file during which a client sets the skip flag.\<close>

definition broken_exited :: "string \<Rightarrow> round" where
  "broken_exited c = \<lparr>read_raises = False, data = c, skip_set = False, writing = ConnectionLost,
               terminate_raises = True\<rparr>"

definition skipped_at_end :: round where
  "skipped_at_end = \<lparr>read_raises = False, data = [], skip_set = True, writing = Written,
               terminate_raises = False\<rparr>"

definition no_skip :: flags where
  "no_skip = \<lparr>skip_status = False, stop_counter = False\<rparr>"

definition streaming :: "round list \<Rightarrow> stream_env" where
  "streaming rs = \<lparr>spawned = True, rounds = rs, still_running = True\<rparr>"

definition a_promo :: promotion where
  "a_promo = \<lparr>audio_path = ''promo.mp3'', promo_metadata = promo_song ''P'',
              promo_stream = streaming [plain ''p1'', skipped ''p2'', plain ''p3'']\<rparr>"

definition quiet_env :: "stream_env \<Rightarrow> loop_env" where
  "quiet_env s = \<lparr>handshakes = [False, True], should_play_promo = False, active_promos = [],
                  path_exists = (\<lambda>p. True), silence_file = None, downloaded = [],
                  song_stream = s, fails = (\<lambda>e. False)\<rparr>"

definition promo_env :: loop_env where
  "promo_env = (quiet_env (streaming [plain ''s1'']))\<lparr>should_play_promo := True, active_promos := [a_promo]\<rparr>"

definition on_air :: loop_state where
  "on_air = \<lparr>connected = True, skip = no_skip, playlist = [''one.mp3'', ''two.mp3''], files = st_next\<rparr>"

text \<open>A round in which the write of the second chunk fails after the subprocess has exited,
  and a round in which a promotion is due and the connection is lost at the first chunk of
  the promotion and stays lost for the song.\<close>

definition exited_env :: loop_env where
  "exited_env = quiet_env (streaming [plain ''c1'', broken_exited ''c2''])"

definition lost_promo :: promotion where
  "lost_promo = \<lparr>audio_path = ''promo.mp3'', promo_metadata = promo_song ''P'',
                 promo_stream = streaming [broken ''p1'']\<rparr>"

definition lost_promo_env :: loop_env where
  "lost_promo_env = (quiet_env (streaming [broken ''s1'']))\<lparr>should_play_promo := True,
                       active_promos := [lost_promo]\<rparr>"

section \<open>Removal renumbers the queue\<close>

lemma length_reassign [simp]: "length (reassign n q) = length q"
  by (induction n q rule: reassign.induct) auto

lemma nth_reassign:
  "j < length q \<Longrightarrow> reassign n q ! j = (n + int j, (snd (q ! j))\<lparr>req_id := Some (n + int j)\<rparr>)"
proof (induction n q arbitrary: j rule: reassign.induct)
  case (1 n)
  then show ?case by simp
next
  case (2 n key r rest)
  then show ?case by (cases j) auto
qed

lemma map_fst_reassign: "map fst (reassign n q) = [n ..  n + int (length q) - 1]"
proof (induction n q rule: reassign.induct)
  case (1 n) then show ?case by simp
next
  case (2 n key r rest)
  have "[n .. n + int (length ((key, r) # rest)) - 1] = n # [n + 1 .. n + 1 + int (length rest) - 1]"
    by (subst upto_rec1) auto
  with 2 show ?case by simp
qed

lemma dense_reassign: "dense (reassign 1 q)"
  unfolding dense_def
proof
  show "map fst (reassign 1 q) = [1 .. int (length (reassign 1 q))]"
    by (simp add: map_fst_reassign)
  show "list_all (\<lambda>(key, r). req_id r = Some key) (reassign 1 q)"
    by (auto simp: list_all_length nth_reassign)
qed

lemma reassign_ids: "map (spotifyID \<circ> snd) (reassign n q) = map (spotifyID \<circ> snd) q"
  by (induction n q rule: reassign.induct) auto

lemma dense_nth_key: "dense q \<Longrightarrow> j < length q \<Longrightarrow> fst (q ! j) = int j + 1"
proof -
  assume d: "dense q" and j: "j < length q"
  have "fst (q ! j) = map fst q ! j" using j by simp
  also have "\<dots> = [1 .. int (length q)] ! j" using d by (simp add: dense_def)
  also have "\<dots> = 1 + int j" using j by (subst nth_upto) auto
  finally show ?thesis by simp
qed

lemma dense_req_id: "dense q \<Longrightarrow> j < length q \<Longrightarrow> req_id (snd (q ! j)) = Some (int j + 1)"
proof -
  assume d: "dense q" and j: "j < length q"
  from d j have "case q ! j of (key, r) \<Rightarrow> req_id r = Some key"
    by (simp add: dense_def list_all_length)
  then have "req_id (snd (q ! j)) = Some (fst (q ! j))" by (cases "q ! j") simp
  with dense_nth_key[OF d j] show ?thesis by simp
qed

lemma dense_distinct: "dense q \<Longrightarrow> distinct (map fst q)"
  by (simp add: dense_def)

lemma dense_map_of:
  assumes "dense q" "j < length q"
  shows "map_of q (int j + 1) = Some (snd (q ! j))"
proof -
  have "q ! j \<in> set q" using assms by simp
  moreover have "q ! j = (int j + 1, snd (q ! j))"
    using dense_nth_key[OF assms] by (metis prod.collapse)
  ultimately have "(int j + 1, snd (q ! j)) \<in> set q" by simp
  then show ?thesis using dense_distinct[OF assms(1)] by simp
qed

lemma dense_delete:
  assumes "dense q" "j < length q"
  shows "AList.delete (int j + 1) q = take j q @ drop (Suc j) q"
proof -
  let ?keep = "\<lambda>(key, r). int j + 1 \<noteq> key"
  have keys: "\<And>i. i < length q \<Longrightarrow> fst (q ! i) = int i + 1"
    using dense_nth_key[OF assms(1)] by simp
  have q: "q = take j q @ q ! j # drop (Suc j) q"
    using assms(2) by (simp add: id_take_nth_drop)
  have a: "filter ?keep (take j q) = take j q"
  proof (rule filter_True, intro ballI)
    fix x assume "x \<in> set (take j q)"
    then obtain i where i: "i < j" "i < length q" "take j q ! i = x"
      by (metis in_set_conv_nth length_take min_less_iff_conj)
    then have "fst x = int i + 1" using keys[of i] by simp
    with i show "?keep x" by (cases x) auto
  qed
  have b: "filter ?keep (drop (Suc j) q) = drop (Suc j) q"
  proof (rule filter_True, intro ballI)
    fix x assume "x \<in> set (drop (Suc j) q)"
    then obtain i where i: "i < length q - Suc j" "drop (Suc j) q ! i = x"
      by (metis in_set_conv_nth length_drop)
    then have "fst x = int (Suc j + i) + 1" using keys[of "Suc j + i"] by auto
    then show "?keep x" by (cases x) auto
  qed
  have c: "filter ?keep [q ! j] = []"
    using keys[OF assms(2)] by (cases "q ! j") auto
  have "filter ?keep q = filter ?keep (take j q @ [q ! j] @ drop (Suc j) q)"
    using q by simp
  also have "\<dots> = take j q @ drop (Suc j) q"
    unfolding filter_append a b c by simp
  finally show ?thesis by (simp add: AList.delete_eq)
qed

lemma upto_1_3: "[1 .. (3::int)] = [1, 2, 3]"
  by (simp add: upto_rec1)

lemma dense_q3: "dense q3"
  by (simp add: dense_def q3_def upto_1_3 mk_request_def)

lemma update_fresh: "k \<notin> fst ` set xs \<Longrightarrow> AList.update k v xs = xs @ [(k, v)]"
  by (induction xs) (auto simp: AList.update.simps)

text \<open>\<open>add_request\<close> keeps the positions dense: the new entry goes to the end, at position
  \<open>N + 1\<close>.\<close>

lemma add_request_dense:
  assumes "dense q"
  shows "dense (add_request q r) \<and> length (add_request q r) = Suc (length q)"
proof -
  let ?n = "int (length q) + 1"
  from assms have keys: "map fst q = [1 .. int (length q)]" by (simp add: dense_def)
  have "fst ` set q = set (map fst q)" by simp
  also have "\<dots> = {1 .. int (length q)}" unfolding keys by simp
  finally have "?n \<notin> fst ` set q" by simp
  then have eq: "add_request q r = q @ [(?n, r\<lparr>req_id := Some ?n\<rparr>)]"
    by (simp add: add_request_def Let_def update_fresh)
  have "[1 .. int (length q) + 1] = [1 .. int (length q)] @ [int (length q) + 1]"
    by (subst upto_rec2) simp_all
  then show ?thesis using assms unfolding eq by (simp add: dense_def add.commute)
qed

text \<open>
  C2.  In a queue whose positions are dense, removing position \<open>k\<close> of \<open>1..N\<close>, by its
  requester or by a moderator, succeeds; the new queue is dense with \<open>N - 1\<close> entries; the
  entries at positions below \<open>k\<close> are the same; the entry at a position \<open>i\<close> from \<open>k\<close> on is
  the former entry of position \<open>i + 1\<close> with its \<open>id\<close> set to \<open>i\<close>; and the track identities,
  in queue order, are the former ones with the one at position \<open>k\<close> taken out (so their
  multiset is the former one minus the removed track).
\<close>

theorem remove_request_by_index_renumbers:
  assumes d: "dense q" and k1: "1 \<le> k" and kN: "k \<le> int (length q)"
    and e: "map_of q k = Some e" and auth: "moderator \<or> requester e = caller"
  shows "\<exists>q'. remove_request_by_index q (Some k) caller moderator = (Removed k, q')
     \<and> dense q' \<and> int (length q') = int (length q) - 1
     \<and> (\<forall>i. 1 \<le> i \<and> i < k \<longrightarrow> map_of q' i = map_of q i)
     \<and> (\<forall>i. k \<le> i \<and> i < int (length q) \<longrightarrow>
            map_of q' i = map_option (\<lambda>r. r\<lparr>req_id := Some i\<rparr>) (map_of q (i + 1)))
     \<and> map (spotifyID \<circ> snd) q'
          = take (nat (k - 1)) (map (spotifyID \<circ> snd) q) @ drop (nat k) (map (spotifyID \<circ> snd) q)
     \<and> mset (map (spotifyID \<circ> snd) q') = mset (map (spotifyID \<circ> snd) q) - {# spotifyID e #}"
proof -
  define j where "j = nat (k - 1)"
  have j: "j < length q" and kj: "k = int j + 1" using k1 kN by (auto simp: j_def)
  define rest where "rest = take j q @ drop (Suc j) q"
  define q' where "q' = reassign 1 rest"
  have len_rest: "length rest = length q - 1" using j by (auto simp: rest_def)
  have run: "remove_request_by_index q (Some k) caller moderator = (Removed k, q')"
    using e auth dense_delete[OF d j]
    by (auto simp: remove_request_by_index_def q'_def rest_def kj)
  have dq': "dense q'" by (simp add: q'_def dense_reassign)
  have len: "int (length q') = int (length q) - 1"
    using j by (simp add: q'_def len_rest)
  have ej: "e = snd (q ! j)" using dense_map_of[OF d j] e kj by simp
  have low: "map_of q' i = map_of q i" if "1 \<le> i" "i < k" for i
  proof -
    define m where "m = nat (i - 1)"
    have m: "m < j" "i = int m + 1" using that kj by (auto simp: m_def)
    have mq: "m < length q" and mq': "m < length q'" and mr: "m < length rest"
      using m j len_rest by (auto simp: q'_def)
    have "rest ! m = q ! m" using m j by (simp add: rest_def nth_append)
    then have "snd (q' ! m) = (snd (q ! m))\<lparr>req_id := Some (int m + 1)\<rparr>"
      using mr by (simp add: q'_def nth_reassign)
    also have "\<dots> = snd (q ! m)" using dense_req_id[OF d mq] by simp
    finally show ?thesis
      using dense_map_of[OF dq' mq'] dense_map_of[OF d mq] m by simp
  qed
  have high: "map_of q' i = map_option (\<lambda>r. r\<lparr>req_id := Some i\<rparr>) (map_of q (i + 1))"
    if "k \<le> i" "i < int (length q)" for i
  proof -
    define m where "m = nat (i - 1)"
    have m: "j \<le> m" "i = int m + 1" "Suc m < length q" using that kj k1 by (auto simp: m_def)
    have mq': "m < length q'" and mr: "m < length rest"
      using m len_rest by (auto simp: q'_def)
    have "rest ! m = q ! Suc m" using m j by (simp add: rest_def nth_append min_def)
    then have "snd (q' ! m) = (snd (q ! Suc m))\<lparr>req_id := Some (int m + 1)\<rparr>"
      using mr by (simp add: q'_def nth_reassign)
    then show ?thesis
      using dense_map_of[OF dq' mq'] dense_map_of[OF d m(3)] m by simp
  qed
  have ids: "map (spotifyID \<circ> snd) q'
          = take (nat (k - 1)) (map (spotifyID \<circ> snd) q) @ drop (nat k) (map (spotifyID \<circ> snd) q)"
  proof -
    have "nat k = Suc j" using k1 by (simp add: j_def)
    then show ?thesis by (simp add: q'_def reassign_ids rest_def take_map drop_map j_def)
  qed
  have "map (spotifyID \<circ> snd) q = map (spotifyID \<circ> snd) (take j q @ q ! j # drop (Suc j) q)"
    using j by (simp add: id_take_nth_drop[symmetric])
  then have "mset (map (spotifyID \<circ> snd) q) = mset (map (spotifyID \<circ> snd) rest) + {# spotifyID e #}"
    by (simp add: rest_def ej)
  then have ms: "mset (map (spotifyID \<circ> snd) q') = mset (map (spotifyID \<circ> snd) q) - {# spotifyID e #}"
    by (simp add: q'_def reassign_ids)
  from run dq' len low high ids ms show ?thesis by blast
qed

theorem remove_request_by_index_renumbers_witness:
  "dense q3 \<and> map_of q3 2 = Some (mk_request 2 ''b'' ''B'' ''u2'')
   \<and> remove_request_by_index q3 (Some 2) ''u2'' False
       = (Removed 2, [(1, mk_request 1 ''a'' ''A'' ''u1''), (2, mk_request 2 ''c'' ''C'' ''u3'')])
   \<and> (\<exists>q'. remove_request_by_index q3 (Some 2) ''u2'' False = (Removed 2, q') \<and> dense q'
         \<and> int (length q') = 2 \<and> map_of q' 1 = map_of q3 1
         \<and> map_of q' 2 = map_option (\<lambda>r. r\<lparr>req_id := Some 2\<rparr>) (map_of q3 3)
         \<and> map (spotifyID \<circ> snd) q' = [''A'', ''C''])"
proof -
  have e: "map_of q3 2 = Some (mk_request 2 ''b'' ''B'' ''u2'')"
    by (simp add: q3_def)
  have run: "remove_request_by_index q3 (Some 2) ''u2'' False
       = (Removed 2, [(1, mk_request 1 ''a'' ''A'' ''u1''), (2, mk_request 2 ''c'' ''C'' ''u3'')])"
    by (simp add: remove_request_by_index_def q3_def mk_request_def AList.delete_eq)
  have auth: "False \<or> requester (mk_request 2 ''b'' ''B'' ''u2'') = ''u2''"
    by (simp add: mk_request_def)
  from remove_request_by_index_renumbers[OF dense_q3 _ _ e auth]
  obtain q' where q': "remove_request_by_index q3 (Some 2) ''u2'' False = (Removed 2, q')" "dense q'"
      "int (length q') = int (length q3) - 1"
      "\<forall>i. 1 \<le> i \<and> i < 2 \<longrightarrow> map_of q' i = map_of q3 i"
      "\<forall>i. 2 \<le> i \<and> i < int (length q3) \<longrightarrow>
            map_of q' i = map_option (\<lambda>r. r\<lparr>req_id := Some i\<rparr>) (map_of q3 (i + 1))"
      "map (spotifyID \<circ> snd) q'
          = take (nat (2 - 1)) (map (spotifyID \<circ> snd) q3) @ drop (nat 2) (map (spotifyID \<circ> snd) q3)"
    by (auto simp: q3_def)
  have "map_of q' 1 = map_of q3 1" using q'(4) by simp
  moreover have "map_of q' 2 = map_option (\<lambda>r. r\<lparr>req_id := Some 2\<rparr>) (map_of q3 3)"
    using q'(5) by (simp add: q3_def)
  moreover have "int (length q') = 2" using q'(3) by (simp add: q3_def)
  moreover have "map (spotifyID \<circ> snd) q' = [''A'', ''C'']"
    using q'(6) by (simp add: q3_def mk_request_def)
  ultimately have "\<exists>q'. remove_request_by_index q3 (Some 2) ''u2'' False = (Removed 2, q') \<and> dense q'
         \<and> int (length q') = 2 \<and> map_of q' 1 = map_of q3 1
         \<and> map_of q' 2 = map_option (\<lambda>r. r\<lparr>req_id := Some 2\<rparr>) (map_of q3 3)
         \<and> map (spotifyID \<circ> snd) q' = [''A'', ''C'']"
    using q'(1,2) by (intro exI[of _ q']) simp
  with dense_q3 e run show ?thesis by simp
qed

section \<open>Rejections\<close>

lemma request_maker_rejects_unchanged:
  "(\<exists>r. fst (request_maker g sp now st sub) = Accepted r) \<or> snd (request_maker g sp now st sub) = st"
  by (auto simp: request_maker_def split: sum.splits prod.splits)

lemma song_data_of_early: "song_data_of g sp now sub = Inl early \<Longrightarrow> \<exists>m. early = Text m"
  by (auto simp: song_data_of_def Let_def split: if_splits sum.splits)

lemma remove_rejects_unchanged:
  "(\<exists>i. fst (remove_request_by_index file index caller moderator) = Removed i)
   \<or> snd (remove_request_by_index file index caller moderator) = file"
  by (auto simp: remove_request_by_index_def split: option.splits)

text \<open>What the rejections that are made have in common: a removal attempted by someone who
  is neither the requester of the entry nor a moderator returns code 701, and 701 is
  returned for no other reason; every reply other than a success leaves the state as it
  was; a coded reply of \<open>request_maker\<close> is one of 609, 709, 708, 707, 706, each for its own
  test; the six codes are pairwise different.\<close>

lemma rejections_leave_state:
  "(map_of file i = Some e \<and> \<not> moderator \<and> requester e \<noteq> caller \<longrightarrow>
      remove_request_by_index file (Some i) caller moderator = (Error 701, file))
   \<and> (fst (remove_request_by_index file index caller moderator) = Error 701 \<longrightarrow>
      (\<exists>i e. index = Some i \<and> map_of file i = Some e \<and> \<not> moderator \<and> requester e \<noteq> caller))
   \<and> ((\<forall>i. fst (remove_request_by_index file index caller moderator) \<noteq> Removed i) \<longrightarrow>
      snd (remove_request_by_index file index caller moderator) = file)
   \<and> ((\<forall>r. fst (request_maker g sp now st sub) \<noteq> Accepted r) \<longrightarrow>
      snd (request_maker g sp now st sub) = st)
   \<and> (fst (request_maker g sp now st sub) = Error c \<longrightarrow>
      c \<in> {609, 709, 708, 707, 706} \<and>
      (\<exists>yt sd. song_data_of g sp now sub = Inr (yt, sd) \<and>
         (c = 609 \<longrightarrow> track_already_played st now sd = Inr True) \<and>
         (c = 709 \<longrightarrow> is_song_blocked st (spotifyID sd)) \<and>
         (c = 708 \<longrightarrow> check_request_exists (requests_file st) (spotifyID sd)) \<and>
         (c = 707 \<longrightarrow> next_coming_file_exists st (spotifyID sd)) \<and>
         (c = 706 \<longrightarrow> now_playing_file_exists st (spotifyID sd))))
   \<and> distinct [701, 609, 709, 708, 707, 706 :: nat]"
proof (intro conjI)
  show "map_of file i = Some e \<and> \<not> moderator \<and> requester e \<noteq> caller \<longrightarrow>
      remove_request_by_index file (Some i) caller moderator = (Error 701, file)"
    by (simp add: remove_request_by_index_def)
  show "fst (remove_request_by_index file index caller moderator) = Error 701 \<longrightarrow>
      (\<exists>i e. index = Some i \<and> map_of file i = Some e \<and> \<not> moderator \<and> requester e \<noteq> caller)"
    by (auto simp: remove_request_by_index_def split: option.splits if_splits)
  show "(\<forall>i. fst (remove_request_by_index file index caller moderator) \<noteq> Removed i) \<longrightarrow>
      snd (remove_request_by_index file index caller moderator) = file"
    using remove_rejects_unchanged by blast
  show "(\<forall>r. fst (request_maker g sp now st sub) \<noteq> Accepted r) \<longrightarrow>
      snd (request_maker g sp now st sub) = st"
    using request_maker_rejects_unchanged by blast
  show "fst (request_maker g sp now st sub) = Error c \<longrightarrow>
      c \<in> {609, 709, 708, 707, 706} \<and>
      (\<exists>yt sd. song_data_of g sp now sub = Inr (yt, sd) \<and>
         (c = 609 \<longrightarrow> track_already_played st now sd = Inr True) \<and>
         (c = 709 \<longrightarrow> is_song_blocked st (spotifyID sd)) \<and>
         (c = 708 \<longrightarrow> check_request_exists (requests_file st) (spotifyID sd)) \<and>
         (c = 707 \<longrightarrow> next_coming_file_exists st (spotifyID sd)) \<and>
         (c = 706 \<longrightarrow> now_playing_file_exists st (spotifyID sd)))"
  proof
    assume r: "fst (request_maker g sp now st sub) = Error c"
    then obtain yt sd recent where sd: "song_data_of g sp now sub = Inr (yt, sd)"
        and tap: "track_already_played st now sd = Inr recent"
      by (auto simp: request_maker_def song_data_of_def Let_def split: sum.splits prod.splits if_splits)
    from r sd tap show "c \<in> {609, 709, 708, 707, 706} \<and>
      (\<exists>yt sd. song_data_of g sp now sub = Inr (yt, sd) \<and>
         (c = 609 \<longrightarrow> track_already_played st now sd = Inr True) \<and>
         (c = 709 \<longrightarrow> is_song_blocked st (spotifyID sd)) \<and>
         (c = 708 \<longrightarrow> check_request_exists (requests_file st) (spotifyID sd)) \<and>
         (c = 707 \<longrightarrow> next_coming_file_exists st (spotifyID sd)) \<and>
         (c = 706 \<longrightarrow> now_playing_file_exists st (spotifyID sd)))"
      by (auto simp: request_maker_def split: if_splits)
  qed
  show "distinct [701, 609, 709, 708, 707, 706 :: nat]" by simp
qed

text \<open>The tests in the order \<open>request_maker\<close> makes them: the first that holds decides the
  reply.\<close>

lemma request_maker_first_test:
  assumes "song_data_of g sp now sub = Inr (yt, sd)" "track_already_played st now sd = Inr recent"
  shows "recent \<Longrightarrow> request_maker g sp now st sub = (Error 609, st)"
    and "\<not> recent \<Longrightarrow> \<not> yt \<Longrightarrow> is_song_blocked st (spotifyID sd)
           \<Longrightarrow> request_maker g sp now st sub = (Error 709, st)"
    and "\<not> recent \<Longrightarrow> yt \<or> \<not> is_song_blocked st (spotifyID sd)
           \<Longrightarrow> check_request_exists (requests_file st) (spotifyID sd)
           \<Longrightarrow> request_maker g sp now st sub = (Error 708, st)"
    and "\<not> recent \<Longrightarrow> yt \<or> \<not> is_song_blocked st (spotifyID sd)
           \<Longrightarrow> \<not> check_request_exists (requests_file st) (spotifyID sd)
           \<Longrightarrow> next_coming_file_exists st (spotifyID sd)
           \<Longrightarrow> request_maker g sp now st sub = (Error 707, st)"
    and "\<not> recent \<Longrightarrow> yt \<or> \<not> is_song_blocked st (spotifyID sd)
           \<Longrightarrow> \<not> check_request_exists (requests_file st) (spotifyID sd)
           \<Longrightarrow> \<not> next_coming_file_exists st (spotifyID sd)
           \<Longrightarrow> now_playing_file_exists st (spotifyID sd)
           \<Longrightarrow> request_maker g sp now st sub = (Error 706, st)"
  using assms by (auto simp: request_maker_def)

text \<open>The two playback files hold an object, not a list, when the code has written them:
  \<open>save_to_next_coming\<close> writes an object, \<open>get_next_coming_data\<close> rewrites a list as an
  object, and \<open>move_to_now_playing\<close> copies what the next-coming file holds.  On an object
  the two tests of \<open>request_maker\<close> for the next slot and for the playing track walk the
  keys and find nothing, whatever the track.\<close>

lemma save_to_next_coming_object:
  "\<exists>s. next_coming_file (save_to_next_coming now st (Raw raw) who appreq) = Single s"
  by (simp add: save_to_next_coming_def Let_def)

lemma move_to_now_playing_copies:
  "truthy (next_coming_file st) \<Longrightarrow> now_playing_file (move_to_now_playing st) = next_coming_file st"
  by (simp add: move_to_now_playing_def)

lemma object_never_found:
  "next_coming_file st = Single s \<Longrightarrow> \<not> next_coming_file_exists st sid"
  "now_playing_file st = Single s \<Longrightarrow> \<not> now_playing_file_exists st sid"
  by (simp_all add: next_coming_file_exists_def now_playing_file_exists_def)

text \<open>
  C8.  The now-playing file holds the record of track \<open>A\<close> and the next-coming file the
  record of track \<open>B\<close>, each as the object that the code writes; nothing is queued,
  blocked or in the history.  A listener submits \<open>A\<close> by its catalog id, and then \<open>B\<close>:
  neither submission is rejected (the codes 706 and 707 are not returned), each is
  accepted and written to the queue file.
\<close>

theorem playing_track_request_accepted:
  "now_playing_file st_next = Single (a_song ''A'') \<and> spotifyID (a_song ''A'') = ''A''
   \<and> request_maker (\<lambda>a. None) catalog 0 st_next (by_id ''A'')
       = (Accepted \<lparr>title = ''name'', artist = ''artist'', album = ''album'', played = Some 0,
                    albumart = None, spotifyID = ''A'', requester = ''u9'', apprequest = ''None'',
                    external_url = [], req_id = Some 1, duration = 200000, youtube_url = []\<rparr>,
          st_next\<lparr>requests_file :=
            [(1, \<lparr>title = ''name'', artist = ''artist'', album = ''album'', played = Some 0,
                  albumart = None, spotifyID = ''A'', requester = ''u9'', apprequest = ''None'',
                  external_url = [], req_id = Some 1, duration = 200000, youtube_url = []\<rparr>)]\<rparr>)
   \<and> next_coming_file st_next = Single (a_song ''B'') \<and> spotifyID (a_song ''B'') = ''B''
   \<and> request_maker (\<lambda>a. None) catalog 0 st_next (by_id ''B'')
       = (Accepted \<lparr>title = ''name'', artist = ''artist'', album = ''album'', played = Some 0,
                    albumart = None, spotifyID = ''B'', requester = ''u9'', apprequest = ''None'',
                    external_url = [], req_id = Some 1, duration = 200000, youtube_url = []\<rparr>,
          st_next\<lparr>requests_file :=
            [(1, \<lparr>title = ''name'', artist = ''artist'', album = ''album'', played = Some 0,
                  albumart = None, spotifyID = ''B'', requester = ''u9'', apprequest = ''None'',
                  external_url = [], req_id = Some 1, duration = 200000, youtube_url = []\<rparr>)]\<rparr>)"
proof -
  have sd: "song_data_of (\<lambda>a. None) catalog 0 (by_id i) =
      Inr (False, \<lparr>title = ''name'', artist = ''artist'', album = ''album'', played = Some 0,
                  albumart = None, spotifyID = i, requester = ''u9'', apprequest = ''None'',
                  external_url = [], req_id = None, duration = 200000, youtube_url = []\<rparr>)"
    if "\<not> startswith i ''youtube_''" for i
    using that by (simp add: song_data_of_def by_id_def get_song_data_by_id_def catalog_def str_opt_def)
  have a: "\<not> startswith ''A'' ''youtube_''" and b: "\<not> startswith ''B'' ''youtube_''"
    by (simp_all add: startswith_def)
  show ?thesis
    by (simp add: request_maker_def sd[OF a] sd[OF b] track_already_played_def st_next_def
        is_song_blocked_def check_request_exists_def next_coming_file_exists_def
        now_playing_file_exists_def add_request_def a_song_def Let_def)
qed

section \<open>Recently played tracks\<close>

lemma playlist_selection_fresh:
  "playlist_selection st feed = Some (Inr (Selected track)) \<Longrightarrow>
   \<exists>now. (now, track) \<in> set feed \<and>
     track_already_played_id st now
       (if c_track_id track \<noteq> [] then c_track_id track else c_id track) = Inr False"
proof (induction st feed rule: playlist_selection.induct)
  case (1 st)
  then show ?case by simp
next
  case (2 st now t rest)
  show ?case
  proof (cases "playlist_selection st rest = Some (Inr (Selected track))")
    case True
    with 2 show ?thesis
      by (fastforce simp: Let_def split: if_splits option.splits sum.splits)
  next
    case False
    with "2.prems" have "t = track \<and> track_already_played_id st now
       (if c_track_id track \<noteq> [] then c_track_id track else c_id track) = Inr False"
      by (auto simp: Let_def split: if_splits option.splits sum.splits)
    then show ?thesis by auto
  qed
qed

lemma selected_by_playlist:
  "get_next_song_from_AIplaylist st k ns feed = Some (Inr (Selected track), st') \<Longrightarrow>
   playlist_selection st feed = Some (Inr (Selected track))"
  by (auto simp: get_next_song_from_AIplaylist_def split: option.splits sum.splits selection.splits)

text \<open>
  C3.  Take a track with a non-empty identifier whose history entry records a play at
  time \<open>t\<close>.  If that is less than 3 hours before a submission, then the submission of this
  track is answered with code 609 and changes nothing, whether its data came from the
  catalog lookup or from the manual (video-platform) arguments, and no accepted request
  is for this track.  If it is less than 5 hours before each history check of a selection,
  the selection does not return this track; the selection has one path, the playlist
  walk, since the AI attempt is not code.
\<close>

theorem recent_play_rejected:
  assumes h: "history_file st sid = Some entry" and p: "h_played entry = Some t" and n: "sid \<noteq> []"
  shows "(now - t < 3 * 3600 * 1000000 \<longrightarrow>
            (\<forall>yt sd. song_data_of g sp now sub = Inr (yt, sd) \<and> spotifyID sd = sid \<longrightarrow>
               request_maker g sp now st sub = (Error 609, st))
          \<and> (\<forall>r. fst (request_maker g sp now st sub) = Accepted r \<longrightarrow> spotifyID r \<noteq> sid))
       \<and> ((\<forall>(checked, c) \<in> set feed. checked - t < 5 * 3600 * 1000000) \<longrightarrow>
            (\<forall>track st'. get_next_song_from_AIplaylist st k ns feed = Some (Inr (Selected track), st') \<longrightarrow>
               (if c_track_id track \<noteq> [] then c_track_id track else c_id track) \<noteq> sid))"
proof (intro conjI impI allI)
  fix yt sd
  assume w: "now - t < 3 * 3600 * 1000000"
    and sd: "song_data_of g sp now sub = Inr (yt, sd) \<and> spotifyID sd = sid"
  have "track_already_played st now sd = Inr True"
    using h p n w sd by (simp add: track_already_played_def)
  then show "request_maker g sp now st sub = (Error 609, st)"
    using sd by (simp add: request_maker_def)
next
  fix r
  assume w: "now - t < 3 * 3600 * 1000000"
    and acc: "fst (request_maker g sp now st sub) = Accepted r"
  show "spotifyID r \<noteq> sid"
  proof
    assume eq: "spotifyID r = sid"
    from acc obtain yt sd where sd: "song_data_of g sp now sub = Inr (yt, sd)"
        and r: "r = sd\<lparr>req_id := Some (int (length (requests_file st)) + 1)\<rparr>"
      by (auto simp: request_maker_def split: sum.splits prod.splits if_splits
          dest: song_data_of_early)
    have "track_already_played st now sd = Inr True"
      using h p n w r eq by (simp add: track_already_played_def)
    with sd acc show False by (simp add: request_maker_def)
  qed
next
  fix track st'
  assume w: "\<forall>(checked, c) \<in> set feed. checked - t < 5 * 3600 * 1000000"
    and sel: "get_next_song_from_AIplaylist st k ns feed = Some (Inr (Selected track), st')"
  let ?tid = "if c_track_id track \<noteq> [] then c_track_id track else c_id track"
  from playlist_selection_fresh[OF selected_by_playlist[OF sel]]
  obtain checked where c: "(checked, track) \<in> set feed"
      and f: "track_already_played_id st checked ?tid = Inr False" by blast
  show "?tid \<noteq> sid"
  proof
    assume "?tid = sid"
    moreover have "checked - t < 5 * 3600 * 1000000" using w c by auto
    ultimately have "track_already_played_id st checked ?tid = Inr True"
      using h p n by (simp add: track_already_played_id_def)
    with f show False by simp
  qed
qed

lemma by_id_B:
  "\<exists>sd. song_data_of (\<lambda>a. None) catalog two_hours (by_id ''B'') = Inr (False, sd)
      \<and> spotifyID sd = ''B''"
  by (simp add: song_data_of_def by_id_def startswith_def get_song_data_by_id_def catalog_def
        str_opt_def)

lemma manual_x:
  "\<exists>sd. song_data_of (\<lambda>a. None) catalog two_hours (manual ''youtube_x'') = Inr (True, sd)
      \<and> spotifyID sd = ''youtube_x''"
  by (simp add: song_data_of_def manual_def startswith_def)

theorem recent_play_rejected_witness:
  "history_file st_hist ''B'' = Some (hist 0) \<and> history_file st_hist ''youtube_x'' = Some (hist 0)
   \<and> h_played (hist 0) = Some 0 \<and> two_hours - 0 < 3 * 3600 * 1000000
   \<and> request_maker (\<lambda>a. None) catalog two_hours st_hist (by_id ''B'') = (Error 609, st_hist)
   \<and> request_maker (\<lambda>a. None) catalog two_hours st_hist (manual ''youtube_x'') = (Error 609, st_hist)
   \<and> (\<exists>r. fst (request_maker (\<lambda>a. None) catalog (2 * two_hours) st_hist (by_id ''B'')) = Accepted r)
   \<and> get_next_song_from_AIplaylist st_hist 0 two_hours [(2 * two_hours, cand ''B''), (2 * two_hours, cand ''C'')]
       = Some (Inr (Selected (cand ''C'')),
               save_to_next_coming two_hours st_hist (c_data (cand ''C'')) ''PewDJ'' [])
   \<and> c_track_id (cand ''C'') \<noteq> ''B''"
proof -
  have hB: "history_file st_hist ''B'' = Some (hist 0)"
    and hx: "history_file st_hist ''youtube_x'' = Some (hist 0)"
    by (simp_all add: st_hist_def)
  have p: "h_played (hist 0) = Some 0" by (simp add: hist_def)
  have w: "two_hours - 0 < 3 * 3600 * 1000000" by (simp add: two_hours_def)
  have a: "request_maker (\<lambda>a. None) catalog two_hours st_hist (by_id ''B'') = (Error 609, st_hist)"
    using recent_play_rejected[OF hB p, where now = two_hours and g = "\<lambda>a. None" and sp = catalog
        and sub = "by_id ''B''" and feed = "[]"] w by_id_B
    by blast
  have b: "request_maker (\<lambda>a. None) catalog two_hours st_hist (manual ''youtube_x'') = (Error 609, st_hist)"
    using recent_play_rejected[OF hx p, where now = two_hours and g = "\<lambda>a. None" and sp = catalog
        and sub = "manual ''youtube_x''" and feed = "[]"] w manual_x
    by blast
  have later: "\<exists>r. fst (request_maker (\<lambda>a. None) catalog (2 * two_hours) st_hist (by_id ''B'')) = Accepted r"
    by (simp add: request_maker_def song_data_of_def by_id_def startswith_def get_song_data_by_id_def
        catalog_def str_opt_def track_already_played_def st_hist_def hist_def two_hours_def
        is_song_blocked_def check_request_exists_def next_coming_file_exists_def
        now_playing_file_exists_def)
  have sel: "get_next_song_from_AIplaylist st_hist 0 two_hours
        [(2 * two_hours, cand ''B''), (2 * two_hours, cand ''C'')]
       = Some (Inr (Selected (cand ''C'')),
               save_to_next_coming two_hours st_hist (c_data (cand ''C'')) ''PewDJ'' [])"
    by (simp add: get_next_song_from_AIplaylist_def cand_def is_song_blocked_def st_hist_def
        track_already_played_id_def hist_def two_hours_def save_to_next_coming_def
        get_next_coming_data_def Let_def)
  have "\<forall>(checked, c) \<in> set [(2 * two_hours, cand ''B''), (2 * two_hours, cand ''C'')].
           checked - 0 < 5 * 3600 * 1000000"
    by (simp add: two_hours_def)
  with recent_play_rejected[OF hB p, where feed = "[(2 * two_hours, cand ''B''), (2 * two_hours, cand ''C'')]"
      and k = 0 and ns = two_hours] sel
  have "(if c_track_id (cand ''C'') \<noteq> [] then c_track_id (cand ''C'') else c_id (cand ''C'')) \<noteq> ''B''"
    by blast
  then have c: "c_track_id (cand ''C'') \<noteq> ''B''" by (simp add: cand_def)
  from hB hx p w a b later sel c show ?thesis by simp
qed

section \<open>One now-playing record, one next-coming record\<close>

lemma exec_at_most_one: "at_most_one st \<Longrightarrow> at_most_one (exec st a)"
proof (cases a)
  case MoveToNowPlaying
  assume "at_most_one st"
  then show ?thesis using MoveToNowPlaying
    by (auto simp: at_most_one_def move_to_now_playing_def Let_def)
next
  case AddToHistory
  assume "at_most_one st"
  then show ?thesis using AddToHistory
    by (auto simp: at_most_one_def add_to_history_def split: option.splits slot.splits list.splits)
next
  case (SaveToNextComing now d r ap)
  assume "at_most_one st"
  then show ?thesis using SaveToNextComing
    by (auto simp: at_most_one_def save_to_next_coming_def Let_def split: option.splits track_data.splits)
next
  case GetNextComingData
  assume "at_most_one st"
  then show ?thesis using GetNextComingData
    by (auto simp: at_most_one_def get_next_coming_data_def split: slot.splits list.splits)
next
  case TickerStart
  assume "at_most_one st"
  then show ?thesis using TickerStart
    by (auto simp: at_most_one_def ticker_start_def Let_def split: option.splits slot.splits list.splits)
next
  case TickerRound
  assume "at_most_one st"
  then show ?thesis using TickerRound
    by (auto simp: at_most_one_def ticker_round_def Let_def
        split: option.splits slot.splits list.splits prod.splits)
next
  case (BuildNowPlaying s)
  assume "at_most_one st"
  then show ?thesis using BuildNowPlaying
    by (auto simp: at_most_one_def build_now_playing_from_file_def)
next
  case (SaveYoutubeMetadata s)
  assume "at_most_one st"
  then show ?thesis using SaveYoutubeMetadata
    by (auto simp: at_most_one_def save_youtube_metadata_def)
next
  case (UpdateDuration d)
  assume "at_most_one st"
  then show ?thesis using UpdateDuration
    by (auto simp: at_most_one_def update_duration_def split: slot.splits)
next
  case (SavePromoMetadata s)
  assume "at_most_one st"
  then show ?thesis using SavePromoMetadata
    by (auto simp: at_most_one_def save_promo_metadata_def)
qed

lemma run_at_most_one: "at_most_one st \<Longrightarrow> at_most_one (foldl exec st ops)"
  by (induction ops arbitrary: st) (auto intro: exec_at_most_one)

lemma exec_next_stays_empty:
  "records (next_coming_file st) = 0 \<Longrightarrow> \<not> writes_next a \<Longrightarrow> records (next_coming_file (exec st a)) = 0"
  by (cases a)
     (auto simp: move_to_now_playing_def truthy_def add_to_history_def get_next_coming_data_def
        ticker_start_def ticker_round_def build_now_playing_from_file_def update_duration_def
        save_promo_metadata_def Let_def
        split: option.splits slot.splits list.splits prod.splits)

lemma run_next_stays_empty:
  "records (next_coming_file st) = 0 \<Longrightarrow> \<forall>a \<in> set ops. \<not> writes_next a \<Longrightarrow>
   records (next_coming_file (foldl exec st ops)) = 0"
proof (induction ops arbitrary: st)
  case Nil
  then show ?case by simp
next
  case (Cons a ops)
  from Cons.prems have "records (next_coming_file (exec st a)) = 0"
    by (simp add: exec_next_stays_empty)
  moreover from Cons.prems have "\<forall>b \<in> set ops. \<not> writes_next b" by simp
  ultimately have "records (next_coming_file (foldl exec (exec st a) ops)) = 0"
    by (rule Cons.IH)
  then show ?case by simp
qed

lemma promoted_next_empty: "records (next_coming_file (move_to_now_playing st)) = 0"
  by (auto simp: move_to_now_playing_def truthy_def Let_def split: slot.splits)

text \<open>
  C4.  Each of the two playback files holds at most one record, and so does the copy a
  position ticker writes back: this holds after every sequence of the operations that
  write these files, from a state where it holds.  The promotion leaves the next-coming
  file without a record; when there was a record to promote, the now-playing file is the
  former next-coming file and the next-coming file is the empty object, both written in
  the one step.  After a promotion the next-coming file stays without a record through
  every sequence of operations in which no acquisition writes it.
\<close>

theorem playback_records_at_most_one:
  "(at_most_one st \<longrightarrow> at_most_one (foldl exec st ops))
   \<and> records (next_coming_file (move_to_now_playing st)) = 0
   \<and> (truthy (next_coming_file st) \<longrightarrow>
        now_playing_file (move_to_now_playing st) = next_coming_file st
        \<and> next_coming_file (move_to_now_playing st) = Empty)
   \<and> ((\<forall>a \<in> set ops. \<not> writes_next a) \<longrightarrow>
        records (next_coming_file (foldl exec (move_to_now_playing st) ops)) = 0)"
proof (intro conjI impI)
  assume "at_most_one st"
  then show "at_most_one (foldl exec st ops)" by (rule run_at_most_one)
next
  show "records (next_coming_file (move_to_now_playing st)) = 0" by (rule promoted_next_empty)
next
  assume "truthy (next_coming_file st)"
  then show "now_playing_file (move_to_now_playing st) = next_coming_file st"
    by (simp add: move_to_now_playing_def)
next
  assume "truthy (next_coming_file st)"
  then show "next_coming_file (move_to_now_playing st) = Empty"
    by (simp add: move_to_now_playing_def)
next
  assume "\<forall>a \<in> set ops. \<not> writes_next a"
  then show "records (next_coming_file (foldl exec (move_to_now_playing st) ops)) = 0"
    using run_next_stays_empty[OF promoted_next_empty] by blast
qed

theorem playback_records_at_most_one_witness:
  "at_most_one st_next \<and> truthy (next_coming_file st_next)
   \<and> at_most_one (foldl exec st_next [TickerStart, TickerRound, AddToHistory, GetNextComingData])
   \<and> now_playing_file (move_to_now_playing st_next) = Single (a_song ''B'')
   \<and> next_coming_file (move_to_now_playing st_next) = Empty
   \<and> records (next_coming_file (foldl exec (move_to_now_playing st_next)
         [TickerStart, TickerRound, AddToHistory, GetNextComingData])) = 0"
proof -
  have a: "at_most_one st_next" by (simp add: at_most_one_def st_next_def)
  have t: "truthy (next_coming_file st_next)" by (simp add: truthy_def st_next_def)
  have n: "\<forall>a \<in> set [TickerStart, TickerRound, AddToHistory, GetNextComingData]. \<not> writes_next a"
    by simp
  have nx: "next_coming_file st_next = Single (a_song ''B'')" by (simp add: st_next_def)
  from playback_records_at_most_one[of st_next "[TickerStart, TickerRound, AddToHistory, GetNextComingData]"]
    a t n nx
  show ?thesis by simp
qed

section \<open>The acquisition chain\<close>





lemma valid_step [simp]:
  "valid c outp b sn an ed yu Cache =
     (case get_from_cache c (fst (titles sn an)) of Raises \<Rightarrow> False | Returns p \<Rightarrow> truthy_path p)"
  "valid c outp b sn an ed yu JioSaavn = (try_jiosaavn c (snd (titles sn an)) (fst (titles sn an)) \<noteq> None)"
  "valid c outp b sn an ed yu SoundCloud =
     (try_soundcloud c (snd (titles sn an)) (fst (titles sn an)) (outp (fst (titles sn an))) \<noteq> None)"
  "valid c outp b sn an ed yu YouTube =
     (try_youtube c (snd (titles sn an)) (fst (titles sn an)) ed yu \<noteq> None)"
  "valid c outp b sn an ed yu CacheFallback = (try_cache_fallback c b \<noteq> None)"
  by (auto simp: valid_def Let_def try_jiosaavn_def try_soundcloud_def try_youtube_def
      try_cache_fallback_def split: outcome.splits)












section \<open>One live instance per task name\<close>

lemma cancel_not_pending: "status (cancel t) \<noteq> Pending"
  by (simp add: cancel_def)

lemma cancel_keeps: "task_id (cancel t) = task_id t" "task_name (cancel t) = task_name t"
  by (simp_all add: cancel_def)

lemma manage_task_tasks:
  "tasks (manage_task tg name coro dflt) =
     map (\<lambda>t. if task_id t = next_id tg then t\<lparr>task_name := name\<rparr> else t)
       (map (\<lambda>t. if task_name t = name then cancel t else t) (tasks tg)
        @ [\<lparr>task_id = next_id tg, task_name = dflt, work = coro, status = Pending\<rparr>])"
  by (simp add: manage_task_def create_task_def set_name_def Let_def)

lemma manage_task_tasks_fresh:
  assumes "ids_fresh tg"
  shows "tasks (manage_task tg name coro dflt) =
     map (\<lambda>t. if task_name t = name then cancel t else t) (tasks tg)
     @ [\<lparr>task_id = next_id tg, task_name = name, work = coro, status = Pending\<rparr>]"
proof -
  have "\<forall>t \<in> set (tasks tg). task_id t \<noteq> next_id tg"
    using assms by (auto simp: ids_fresh_def list_all_iff)
  then have "map (\<lambda>t. if task_id t = next_id tg then t\<lparr>task_name := name\<rparr> else t)
               (map (\<lambda>t. if task_name t = name then cancel t else t) (tasks tg))
             = map (\<lambda>t. if task_name t = name then cancel t else t) (tasks tg)"
    by (induction "tasks tg" arbitrary: tg) (auto simp: cancel_keeps)
  then show ?thesis by (simp add: manage_task_tasks)
qed

lemma manage_task_next_id: "next_id (manage_task tg name coro dflt) = Suc (next_id tg)"
  by (simp add: manage_task_def create_task_def set_name_def Let_def)

lemma manage_task_calls:
  "calls (manage_task tg name coro dflt) =
     calls tg @ map (\<lambda>t. CancelRequested (task_id t)) (filter (\<lambda>t. task_name t = name) (tasks tg))
     @ [Started (next_id tg)]"
  by (simp add: manage_task_def create_task_def set_name_def Let_def)

lemma manage_task_fresh: "ids_fresh tg \<Longrightarrow> ids_fresh (manage_task tg name coro dflt)"
  by (auto simp: ids_fresh_def list_all_iff manage_task_tasks manage_task_next_id cancel_keeps
      less_Suc_eq)

lemma filter_cancelled_same:
  "filter (\<lambda>t. task_name t = name \<and> status t = Pending)
      (map (\<lambda>t. if task_name t = name then cancel t else t) ts) = []"
  by (induction ts) (auto simp: cancel_keeps cancel_not_pending)

lemma filter_cancelled_other:
  "m \<noteq> name \<Longrightarrow>
   filter (\<lambda>t. task_name t = m \<and> status t = Pending)
      (map (\<lambda>t. if task_name t = name then cancel t else t) ts)
   = filter (\<lambda>t. task_name t = m \<and> status t = Pending) ts"
  by (induction ts) (auto simp: cancel_keeps)

lemma manage_task_live:
  assumes "ids_fresh tg"
  shows "live (manage_task tg name coro dflt) name
           = [\<lparr>task_id = next_id tg, task_name = name, work = coro, status = Pending\<rparr>]"
  by (simp add: live_def manage_task_tasks_fresh[OF assms] filter_cancelled_same)

lemma manage_task_live_other:
  assumes "ids_fresh tg" "m \<noteq> name"
  shows "live (manage_task tg name coro dflt) m = live tg m"
  using assms(2) by (simp add: live_def manage_task_tasks_fresh[OF assms(1)] filter_cancelled_other)

lemma finish_live: "length (live (finish tg i) m) \<le> length (live tg m)"
proof -
  have "length (filter (\<lambda>t. task_name t = m \<and> status t = Pending)
                  (map (\<lambda>t. if task_id t = i then t\<lparr>status := Done\<rparr> else t) ts))
        \<le> length (filter (\<lambda>t. task_name t = m \<and> status t = Pending) ts)" for ts
    by (induction ts) auto
  then show ?thesis by (simp add: live_def finish_def)
qed

lemma discard_live: "live (discard tg i) m = live tg m"
proof -
  have "filter (\<lambda>t. task_name t = m \<and> status t = Pending)
           (filter (\<lambda>t. \<not> (task_id t = i \<and> status t = Done)) ts)
        = filter (\<lambda>t. task_name t = m \<and> status t = Pending) ts" for ts
    by (induction ts) auto
  then show ?thesis by (simp add: live_def discard_def)
qed

lemma tg_exec_fresh: "ids_fresh tg \<Longrightarrow> ids_fresh (tg_exec tg a)"
proof (cases a)
  case (Manage n c d)
  assume "ids_fresh tg"
  then show ?thesis using Manage by (simp add: manage_task_fresh)
next
  case (Finish i)
  assume "ids_fresh tg"
  then show ?thesis using Finish by (auto simp: ids_fresh_def finish_def list_all_iff)
next
  case (Discard i)
  assume "ids_fresh tg"
  then show ?thesis using Discard by (auto simp: ids_fresh_def discard_def list_all_iff)
qed

lemma tg_exec_at_most_one:
  assumes "ids_fresh tg" "\<forall>m. length (live tg m) \<le> 1"
  shows "length (live (tg_exec tg a) m) \<le> 1"
proof (cases a)
  case (Manage n c d)
  show ?thesis
  proof (cases "m = n")
    case True
    then show ?thesis using Manage by (simp add: manage_task_live[OF assms(1)])
  next
    case False
    then show ?thesis using Manage assms(2) by (simp add: manage_task_live_other[OF assms(1)])
  qed
next
  case (Finish i)
  then show ?thesis using finish_live[of tg i m] assms(2) by (simp add: le_trans)
next
  case (Discard i)
  then show ?thesis using assms(2) by (simp add: discard_live)
qed

lemma run_tasks_invariant:
  "ids_fresh tg \<Longrightarrow> \<forall>m. length (live tg m) \<le> 1 \<Longrightarrow>
   ids_fresh (foldl tg_exec tg ops) \<and> (\<forall>m. length (live (foldl tg_exec tg ops) m) \<le> 1)"
proof (induction ops arbitrary: tg)
  case Nil
  then show ?case by simp
next
  case (Cons a ops)
  have "ids_fresh (tg_exec tg a)" using Cons.prems(1) by (rule tg_exec_fresh)
  moreover have "\<forall>m. length (live (tg_exec tg a) m) \<le> 1"
    using tg_exec_at_most_one[OF Cons.prems] by blast
  ultimately show ?case using Cons.IH by simp
qed

lemma empty_group_ok: "ids_fresh empty_group \<and> (\<forall>m. length (live empty_group m) \<le> 1)"
  by (simp add: ids_fresh_def empty_group_def live_def)

text \<open>
  C9.  \<open>manage_task\<close> first requests the cancellation of every task registered under the
  name, then creates and starts the new task: these are its calls, in this order.  After
  it, the tasks under that name that are live (pending, no cancellation requested) are
  exactly the new one, and every earlier task under the name has its cancellation
  requested or is done.  In every state reached from the empty group by registrations,
  finished tasks and done callbacks, each name has at most one live task.
\<close>

theorem manage_task_single_instance:
  "(ids_fresh tg \<longrightarrow>
      live (manage_task tg name coro dflt) name
        = [\<lparr>task_id = next_id tg, task_name = name, work = coro, status = Pending\<rparr>]
      \<and> (\<forall>t \<in> set (tasks (manage_task tg name coro dflt)).
            task_name t = name \<and> task_id t \<noteq> next_id tg \<longrightarrow> status t \<noteq> Pending))
   \<and> calls (manage_task tg name coro dflt) =
        calls tg @ map (\<lambda>t. CancelRequested (task_id t)) (filter (\<lambda>t. task_name t = name) (tasks tg))
        @ [Started (next_id tg)]
   \<and> length (live (foldl tg_exec empty_group ops) name) \<le> 1"
proof (intro conjI impI)
  assume f: "ids_fresh tg"
  show "live (manage_task tg name coro dflt) name
        = [\<lparr>task_id = next_id tg, task_name = name, work = coro, status = Pending\<rparr>]"
    by (rule manage_task_live[OF f])
  show "\<forall>t \<in> set (tasks (manage_task tg name coro dflt)).
            task_name t = name \<and> task_id t \<noteq> next_id tg \<longrightarrow> status t \<noteq> Pending"
  proof (intro ballI impI)
    fix t
    assume t: "t \<in> set (tasks (manage_task tg name coro dflt))"
      and p: "task_name t = name \<and> task_id t \<noteq> next_id tg"
    from t have "t \<in> (\<lambda>t. if task_name t = name then cancel t else t) ` set (tasks tg)
        \<or> t = \<lparr>task_id = next_id tg, task_name = name, work = coro, status = Pending\<rparr>"
      unfolding manage_task_tasks_fresh[OF f] by auto
    moreover have "t \<noteq> \<lparr>task_id = next_id tg, task_name = name, work = coro, status = Pending\<rparr>"
    proof
      assume "t = \<lparr>task_id = next_id tg, task_name = name, work = coro, status = Pending\<rparr>"
      then have "task_id t = next_id tg" by (drule_tac f = task_id in arg_cong) simp
      with p show False by simp
    qed
    ultimately obtain t0 where t0: "t = (if task_name t0 = name then cancel t0 else t0)"
      by blast
    show "status t \<noteq> Pending"
    proof (cases "task_name t0 = name")
      case True
      then show ?thesis using t0 by (simp add: cancel_not_pending)
    next
      case False
      then show ?thesis using t0 p by simp
    qed
  qed
next
  show "calls (manage_task tg name coro dflt) =
        calls tg @ map (\<lambda>t. CancelRequested (task_id t)) (filter (\<lambda>t. task_name t = name) (tasks tg))
        @ [Started (next_id tg)]"
    by (rule manage_task_calls)
next
  show "length (live (foldl tg_exec empty_group ops) name) \<le> 1"
    using run_tasks_invariant[of empty_group ops] empty_group_ok by blast
qed

theorem manage_task_single_instance_witness:
  "ids_fresh (manage_task empty_group ''update_position'' ''ticker 1'' ''Task-1'')
   \<and> live (manage_task (manage_task empty_group ''update_position'' ''ticker 1'' ''Task-1'')
             ''update_position'' ''ticker 2'' ''Task-2'') ''update_position''
       = [\<lparr>task_id = 1, task_name = ''update_position'', work = ''ticker 2'', status = Pending\<rparr>]
   \<and> calls (manage_task (manage_task empty_group ''update_position'' ''ticker 1'' ''Task-1'')
             ''update_position'' ''ticker 2'' ''Task-2'')
       = [Started 0, CancelRequested 0, Started 1]"
proof -
  let ?g = "manage_task empty_group ''update_position'' ''ticker 1'' ''Task-1''"
  have f: "ids_fresh ?g"
    by (simp add: ids_fresh_def manage_task_tasks manage_task_next_id empty_group_def)
  have n: "next_id ?g = 1" by (simp add: manage_task_next_id empty_group_def)
  have c: "calls ?g = [Started 0]" by (simp add: manage_task_calls empty_group_def)
  have t: "filter (\<lambda>t. task_name t = ''update_position'') (tasks ?g)
        = [\<lparr>task_id = 0, task_name = ''update_position'', work = ''ticker 1'', status = Pending\<rparr>]"
    by (simp add: manage_task_tasks empty_group_def)
  from manage_task_single_instance[of ?g "''update_position''" "''ticker 2''" "''Task-2''" "[]"] f
  have "live (manage_task ?g ''update_position'' ''ticker 2'' ''Task-2'') ''update_position''
        = [\<lparr>task_id = next_id ?g, task_name = ''update_position'', work = ''ticker 2'', status = Pending\<rparr>]"
    and "calls (manage_task ?g ''update_position'' ''ticker 2'' ''Task-2'') =
        calls ?g @ map (\<lambda>t. CancelRequested (task_id t))
           (filter (\<lambda>t. task_name t = ''update_position'') (tasks ?g)) @ [Started (next_id ?g)]"
    by blast+
  then show ?thesis using f by (simp add: n c t)
qed

section \<open>The order of a playback cycle\<close>

lemma run_steps_subseq:
  "CycleError \<notin> set steps \<Longrightarrow>
   subseq (filter (\<lambda>e. e \<noteq> CycleError) (snd (run_steps raising steps st))) steps"
proof (induction steps arbitrary: st)
  case Nil
  then show ?case by simp
next
  case (Cons e es)
  then have ih: "\<And>s. subseq (filter (\<lambda>e. e \<noteq> CycleError) (snd (run_steps raising es s))) es"
    and ne: "e \<noteq> CycleError" by auto
  show ?case
  proof (cases "e = BroadcastNowPlaying \<and> \<not> truthy (now_playing_file st)")
    case True
    then have eq: "snd (run_steps raising (e # es) st) = snd (run_steps raising es st)" by simp
    show ?thesis unfolding eq using ih[of st] by (rule list_emb_Cons)
  next
    case skip: False
    show ?thesis
    proof (cases "raising e")
      case True
      then have eq: "snd (run_steps raising (e # es) st) = [CycleError]" using skip by auto
      show ?thesis unfolding eq by simp
    next
      case False
      let ?st1 = "if e = HistoryAppend then add_to_history st
                  else if e = Promote then move_to_now_playing st else st"
      have eq: "snd (run_steps raising (e # es) st) = e # snd (run_steps raising es ?st1)"
        using skip False by (auto simp: Let_def split: prod.splits)
      have "subseq (e # filter (\<lambda>e. e \<noteq> CycleError) (snd (run_steps raising es ?st1))) (e # es)"
        using ih[of ?st1] by (simp only: subseq_Cons2_iff) simp
      then show ?thesis unfolding eq using ne by simp
    qed
  qed
qed

lemma run_steps_events: "set (snd (run_steps raising steps st)) \<subseteq> insert CycleError (set steps)"
proof (induction steps arbitrary: st)
  case Nil
  then show ?case by simp
next
  case (Cons e es)
  show ?case
  proof (cases "(e = BroadcastNowPlaying \<and> \<not> truthy (now_playing_file st)) \<or> raising e")
    case True
    then show ?thesis using Cons[of st] by auto
  next
    case False
    let ?st1 = "if e = HistoryAppend then add_to_history st
                else if e = Promote then move_to_now_playing st else st"
    have "snd (run_steps raising (e # es) st) = e # snd (run_steps raising es ?st1)"
      using False by (auto simp: Let_def split: prod.splits)
    then show ?thesis using Cons[of ?st1] by auto
  qed
qed

lemma cycle_error_not_step: "CycleError \<notin> set cycle_steps"
  by (simp add: cycle_steps_def)

lemma cycle_subseq: "subseq (filter (\<lambda>e. e \<noteq> CycleError) (snd (cycle raising st))) cycle_steps"
  unfolding cycle_def by (rule run_steps_subseq[OF cycle_error_not_step])

lemma cycle_full:
  assumes "\<forall>e. \<not> raising e" "truthy (now_playing_file (move_to_now_playing (add_to_history st)))"
  shows "cycle raising st = (move_to_now_playing (add_to_history st), cycle_steps)"
  using assms by (simp add: cycle_def cycle_steps_def)

lemma cycle_now_playing_after_clear:
  assumes "BroadcastNowPlaying \<in> set (snd (cycle raising st))"
  shows "(\<exists>post. snd (cycle raising st)
             = [HistoryAppend, Promote, BroadcastNextCleared, BroadcastNowPlaying] @ post)
       \<and> fst (cycle raising st) = move_to_now_playing (add_to_history st)"
proof -
  have a: "\<not> raising HistoryAppend" using assms
    by (auto simp: cycle_def cycle_steps_def)
  have b: "\<not> raising Promote" using assms a
    by (auto simp: cycle_def cycle_steps_def Let_def split: prod.splits)
  have c: "\<not> raising BroadcastNextCleared" using assms a b
    by (auto simp: cycle_def cycle_steps_def Let_def split: prod.splits)
  let ?s = "move_to_now_playing (add_to_history st)"
  let ?tail = "run_steps raising [BroadcastNowPlaying, MetadataUpdate, BroadcastQueue,
                  ManageTask ''update_position'', IncrementSongCount] ?s"
  have unfold: "cycle raising st = (fst ?tail, HistoryAppend # Promote # BroadcastNextCleared # snd ?tail)"
    using a b c by (simp add: cycle_def cycle_steps_def Let_def split: prod.splits)
  let ?rest = "run_steps raising [MetadataUpdate, BroadcastQueue,
                  ManageTask ''update_position'', IncrementSongCount] ?s"
  have d: "truthy (now_playing_file ?s) \<and> \<not> raising BroadcastNowPlaying"
  proof (rule ccontr)
    assume n: "\<not> (truthy (now_playing_file ?s) \<and> \<not> raising BroadcastNowPlaying)"
    have "set (snd ?rest) \<subseteq> insert CycleError (set [MetadataUpdate, BroadcastQueue,
                  ManageTask ''update_position'', IncrementSongCount])"
      by (rule run_steps_events)
    then have no: "BroadcastNowPlaying \<notin> set (snd ?rest)" by auto
    have "snd ?tail = snd ?rest \<or> snd ?tail = [CycleError]"
      using n by (cases "truthy (now_playing_file ?s)") auto
    with no have "BroadcastNowPlaying \<notin> set (snd ?tail)" by auto
    with assms show False unfolding unfold by simp
  qed
  have tail: "?tail = (fst ?rest, BroadcastNowPlaying # snd ?rest)"
    using d by (simp add: Let_def split: prod.splits)
  have stay: "fst ?rest = ?s"
    by (simp add: Let_def split: prod.splits)
  show ?thesis unfolding unfold tail using stay by simp
qed

text \<open>The events of the connection, of a stream and of the promotions are not steps of
  the cycle.\<close>

lemma filter_none: "(\<And>e. e \<in> set evs \<Longrightarrow> \<not> P e) \<Longrightarrow> filter P evs = []"
  by (induction evs) auto

lemma chunk_loop_events:
  "set (snd (snd (chunk_loop is_promo sr sk rs)))
     \<subseteq> {CheckSkip, SkipTriggered, WriterDisconnected, Terminate, Finished, StreamError} \<union> range Forward"
proof (induction rs arbitrary: sk)
  case Nil
  show ?case by auto
next
  case (Cons r rs)
  let ?sk1 = "if skip_set r then set_skip_flag sk else sk"
  show ?case
  proof (cases "\<not> read_raises r \<and> data r \<noteq> [] \<and> \<not> (skip_status ?sk1 \<and> \<not> is_promo) \<and> writing r = Written")
    case True
    then have "snd (snd (chunk_loop is_promo sr sk (r # rs)))
            = CheckSkip # Forward (data r) # snd (snd (chunk_loop is_promo sr ?sk1 rs))"
      by (auto simp: Let_def split: prod.splits)
    then show ?thesis using Cons[of ?sk1] by auto
  next
    case False
    then show ?thesis by (cases "writing r") (auto simp: Let_def)
  qed
qed

lemma stream_events:
  "set (snd (snd (stream_single_file p is_promo ex sk env)))
     \<subseteq> {CheckSkip, SkipTriggered, WriterDisconnected, Terminate, Finished, StreamError}
        \<union> range Forward \<union> range StreamStart \<union> range FileNotFound"
  using chunk_loop_events[of is_promo "still_running env" sk "rounds env"]
  by (auto simp: stream_single_file_def split: prod.splits)

lemma stream_not_in_cycle: "e \<in> set (snd (snd (stream_single_file p is_promo ex sk env))) \<Longrightarrow> \<not> in_cycle e"
  using stream_events[of p is_promo ex sk env] by (auto simp: in_cycle_def cycle_steps_def)

lemma connect_events: "connect_to_icecast hs = Some evs \<Longrightarrow> set evs \<subseteq> {Connect, HandshakeFailed}"
  by (induction hs arbitrary: evs) (auto split: if_splits)

lemma play_promos_not_in_cycle:
  "e \<in> set (snd (play_promos env st ps)) \<Longrightarrow> \<not> in_cycle e"
proof (induction ps arbitrary: st)
  case Nil
  then show ?case by simp
next
  case (Cons promo later)
  show ?case
  proof (cases "path_exists env (audio_path promo)")
    case False
    then show ?thesis using Cons by simp
  next
    case True
    let ?st1 = "st\<lparr>files := save_promo_metadata (files st) (promo_metadata promo)\<rparr>"
    obtain ok sk' evs where s: "stream_single_file (audio_path promo) False True (skip ?st1) (promo_stream promo)
        = (ok, sk', evs)" by (cases "stream_single_file (audio_path promo) False True (skip ?st1) (promo_stream promo)")
    have evs: "\<And>x. x \<in> set evs \<Longrightarrow> \<not> in_cycle x"
      using stream_not_in_cycle[of _ "audio_path promo" False True "skip ?st1" "promo_stream promo"] s by simp
    let ?before = "[PromoSaved (audio_path promo), BroadcastPromo (audio_path promo),
               PromoMetadataUpdate (audio_path promo)]"
    let ?st2 = "?st1\<lparr>skip := sk'\<rparr>"
    have "\<exists>st2 mid. snd (play_promos env st (promo # later))
            = ?before @ evs @ mid @ snd (play_promos env st2 later)
          \<and> set mid \<subseteq> {MarkLost, CycleError, BroadcastNowPlayingAfterPromo, UpdatePlayStats}"
    proof (cases ok)
      case False
      have "snd (play_promos env st (promo # later))
            = ?before @ evs @ [MarkLost] @ snd (play_promos env (?st2\<lparr>connected := False\<rparr>) later)"
        using True s False by (simp add: Let_def split: prod.splits)
      then show ?thesis by (intro exI[of _ "?st2\<lparr>connected := False\<rparr>"] exI[of _ "[MarkLost]"]) simp
    next
      case okT: True
      let ?after = "if truthy (now_playing_file (files ?st2))
                      then (if fails env BroadcastNowPlayingAfterPromo then [CycleError]
                            else [BroadcastNowPlayingAfterPromo, UpdatePlayStats])
                      else [UpdatePlayStats]"
      have "snd (play_promos env st (promo # later))
            = ?before @ evs @ ?after @ snd (play_promos env ?st2 later)"
        using True s okT by (simp add: Let_def split: prod.splits)
      then show ?thesis by (intro exI[of _ ?st2] exI[of _ ?after]) simp
    qed
    then obtain st2 mid where m: "snd (play_promos env st (promo # later))
            = [PromoSaved (audio_path promo), BroadcastPromo (audio_path promo),
               PromoMetadataUpdate (audio_path promo)] @ evs @ mid @ snd (play_promos env st2 later)"
        "set mid \<subseteq> {MarkLost, CycleError, BroadcastNowPlayingAfterPromo, UpdatePlayStats}" by blast
    from Cons.prems consider "e \<in> {PromoSaved (audio_path promo), BroadcastPromo (audio_path promo),
               PromoMetadataUpdate (audio_path promo)}" | "e \<in> set evs" | "e \<in> set mid"
        | "e \<in> set (snd (play_promos env st2 later))"
      unfolding m(1) by auto
    then show ?thesis
    proof cases
      case 1
      then show ?thesis by (auto simp: in_cycle_def cycle_steps_def)
    next
      case 2
      then show ?thesis by (rule evs)
    next
      case 3
      with m(2) show ?thesis by (auto simp: in_cycle_def cycle_steps_def)
    next
      case 4
      then show ?thesis by (rule Cons.IH)
    qed
  qed
qed

lemma promotion_check_not_in_cycle:
  "e \<in> set (snd (promotion_check env st)) \<Longrightarrow> \<not> in_cycle e"
  using play_promos_not_in_cycle[of e env st "active_promos env"]
  by (auto simp: promotion_check_def in_cycle_def cycle_steps_def split: if_splits prod.splits)

lemma cycle_filter: "filter in_cycle (snd (cycle raising st)) = filter (\<lambda>e. e \<noteq> CycleError) (snd (cycle raising st))"
proof (rule filter_cong[OF refl])
  fix e assume "e \<in> set (snd (cycle raising st))"
  then have "e \<in> insert CycleError (set cycle_steps)"
    using run_steps_events[of raising cycle_steps st] by (auto simp: cycle_def)
  then show "in_cycle e = (e \<noteq> CycleError)"
    using cycle_error_not_step by (auto simp: in_cycle_def)
qed

lemma normal_stream_flow_order:
  "subseq (filter in_cycle (snd (normal_stream_flow env st))) cycle_steps"
proof -
  obtain next_song st3 where g: "get_next_song env st = (next_song, st3)"
    by (cases "get_next_song env st")
  let ?path = "case next_song of Some p \<Rightarrow> Some p | None \<Rightarrow> silence_file env"
  show ?thesis
  proof (cases ?path)
    case None
    then have "snd (normal_stream_flow env st) = [ManageTask ''song_downloader'', NothingToStream]"
      using g by (simp add: normal_stream_flow_def)
    then show ?thesis by (simp add: in_cycle_def cycle_steps_def)
  next
    case (Some p)
    obtain ok sk' sev where s: "stream_single_file p False (path_exists env p) (skip st3) (song_stream env)
        = (ok, sk', sev)"
      by (cases "stream_single_file p False (path_exists env p) (skip st3) (song_stream env)")
    have ev: "snd (normal_stream_flow env st)
        = ManageTask ''song_downloader'' # sev @ snd (cycle (fails env) (files st3))
          @ (if ok then [] else [MarkLost])"
      using g Some s by (simp add: normal_stream_flow_def split: prod.splits)
    have "filter in_cycle sev = []"
      using stream_not_in_cycle[of _ p False "path_exists env p" "skip st3" "song_stream env"] s
      by (intro filter_none) simp
    then have "filter in_cycle (snd (normal_stream_flow env st))
        = filter (\<lambda>e. e \<noteq> CycleError) (snd (cycle (fails env) (files st3)))"
      unfolding ev by (simp add: cycle_filter) (simp add: in_cycle_def cycle_steps_def)
    then show ?thesis by (simp add: cycle_subseq)
  qed
qed

lemma loop_round_order:
  assumes "loop_round env ls = Some (ls', evs)"
  shows "subseq (filter in_cycle evs) cycle_steps"
proof -
  from assms obtain ev0 where c: "(if connected ls then Some [] else connect_to_icecast (handshakes env)) = Some ev0"
    by (auto simp: loop_round_def split: option.splits)
  obtain st2 ev1 where p: "promotion_check env (ls\<lparr>connected := True\<rparr>) = (st2, ev1)"
    by (cases "promotion_check env (ls\<lparr>connected := True\<rparr>)")
  have evs: "evs = ev0 @ ev1 @ snd (normal_stream_flow env st2)"
    using assms c p by (auto simp: loop_round_def split: prod.splits)
  have "set ev0 \<subseteq> {Connect, HandshakeFailed}"
    using c connect_events by (auto split: if_splits)
  then have "filter in_cycle ev0 = []"
    by (intro filter_none) (auto simp: in_cycle_def cycle_steps_def)
  moreover have "filter in_cycle ev1 = []"
    using promotion_check_not_in_cycle[of _ env "ls\<lparr>connected := True\<rparr>"] p
    by (intro filter_none) simp
  ultimately have "filter in_cycle evs = filter in_cycle (snd (normal_stream_flow env st2))"
    unfolding evs by simp
  then show ?thesis by (simp add: normal_stream_flow_order)
qed

text \<open>
  C5.  The cycle that follows the stream of a file runs its calls in the order history
  append, promotion, next-coming-cleared broadcast, now-playing broadcast, relay metadata
  update, queue broadcast (then the position task and the song counter): its events,
  apart from the marker of a caught exception, are a subsequence of that list, and they
  are the whole list when no call raises and there is a now-playing record.  If the
  now-playing broadcast is made, then the history append, the promotion and the
  next-coming-cleared broadcast were made before it, in this order, and the next-coming
  file holds no record.  In the events of every round of the stream loop, the steps of the
  cycle occur in that order.
\<close>

theorem cycle_in_fixed_order:
  "subseq (filter (\<lambda>e. e \<noteq> CycleError) (snd (cycle raising st))) cycle_steps
   \<and> take 6 cycle_steps = [HistoryAppend, Promote, BroadcastNextCleared, BroadcastNowPlaying,
                            MetadataUpdate, BroadcastQueue]
   \<and> ((\<forall>e. \<not> raising e) \<and> truthy (now_playing_file (move_to_now_playing (add_to_history st))) \<longrightarrow>
         cycle raising st = (move_to_now_playing (add_to_history st), cycle_steps))
   \<and> (BroadcastNowPlaying \<in> set (snd (cycle raising st)) \<longrightarrow>
         (\<exists>post. snd (cycle raising st)
             = [HistoryAppend, Promote, BroadcastNextCleared, BroadcastNowPlaying] @ post)
         \<and> records (next_coming_file (fst (cycle raising st))) = 0)
   \<and> (loop_round env ls = Some (ls', evs) \<longrightarrow>
         subseq (filter (\<lambda>e. e \<in> set cycle_steps) evs) cycle_steps)"
proof (intro conjI impI)
  show "subseq (filter (\<lambda>e. e \<noteq> CycleError) (snd (cycle raising st))) cycle_steps"
    by (rule cycle_subseq)
  show "take 6 cycle_steps = [HistoryAppend, Promote, BroadcastNextCleared, BroadcastNowPlaying,
                            MetadataUpdate, BroadcastQueue]"
    by (simp add: cycle_steps_def)
next
  assume "(\<forall>e. \<not> raising e) \<and> truthy (now_playing_file (move_to_now_playing (add_to_history st)))"
  then show "cycle raising st = (move_to_now_playing (add_to_history st), cycle_steps)"
    using cycle_full by blast
next
  assume b: "BroadcastNowPlaying \<in> set (snd (cycle raising st))"
  from cycle_now_playing_after_clear[OF b]
  show "\<exists>post. snd (cycle raising st)
             = [HistoryAppend, Promote, BroadcastNextCleared, BroadcastNowPlaying] @ post"
    by blast
  from cycle_now_playing_after_clear[OF b]
  show "records (next_coming_file (fst (cycle raising st))) = 0"
    by (simp add: promoted_next_empty)
next
  assume "loop_round env ls = Some (ls', evs)"
  then have "subseq (filter in_cycle evs) cycle_steps" by (rule loop_round_order)
  then show "subseq (filter (\<lambda>e. e \<in> set cycle_steps) evs) cycle_steps"
    by (simp add: in_cycle_def[abs_def])
qed

theorem cycle_in_fixed_order_witness:
  "truthy (now_playing_file (move_to_now_playing (add_to_history st_next)))
   \<and> cycle (\<lambda>e. False) st_next = (move_to_now_playing (add_to_history st_next), cycle_steps)
   \<and> BroadcastNowPlaying \<in> set (snd (cycle (\<lambda>e. False) st_next))
   \<and> records (next_coming_file (fst (cycle (\<lambda>e. False) st_next))) = 0
   \<and> (\<exists>ls' evs. loop_round (quiet_env (streaming [plain ''s1''])) on_air = Some (ls', evs)
         \<and> subseq (filter (\<lambda>e. e \<in> set cycle_steps) evs) cycle_steps)"
proof -
  note t = cycle_in_fixed_order[of "\<lambda>e. False" st_next "quiet_env (streaming [plain ''s1''])" on_air]
  have tr: "truthy (now_playing_file (move_to_now_playing (add_to_history st_next)))"
    by (simp add: st_next_def a_song_def add_to_history_def move_to_now_playing_def truthy_def)
  have c: "cycle (\<lambda>e. False) st_next = (move_to_now_playing (add_to_history st_next), cycle_steps)"
    using t[THEN conjunct2, THEN conjunct2, THEN conjunct1] tr by simp
  have b: "BroadcastNowPlaying \<in> set (snd (cycle (\<lambda>e. False) st_next))"
    unfolding c by (simp add: cycle_steps_def)
  have n: "records (next_coming_file (fst (cycle (\<lambda>e. False) st_next))) = 0"
    using t[THEN conjunct2, THEN conjunct2, THEN conjunct2, THEN conjunct1] b by simp
  obtain ls' evs where l: "loop_round (quiet_env (streaming [plain ''s1''])) on_air = Some (ls', evs)"
    by (cases "loop_round (quiet_env (streaming [plain ''s1''])) on_air")
       (auto simp: loop_round_def on_air_def split: prod.splits)
  have "subseq (filter (\<lambda>e. e \<in> set cycle_steps) evs) cycle_steps"
    using cycle_in_fixed_order[of "\<lambda>e. False" st_next "quiet_env (streaming [plain ''s1''])" on_air ls' evs] l
    by blast
  with l have "\<exists>ls' evs. loop_round (quiet_env (streaming [plain ''s1''])) on_air = Some (ls', evs)
         \<and> subseq (filter (\<lambda>e. e \<in> set cycle_steps) evs) cycle_steps" by blast
  with tr c b n show ?thesis by (intro conjI)
qed

section \<open>The chunk loop\<close>

text \<open>The events of the rounds that pass: one check of the flag, then the chunk.\<close>

lemma chunk_loop_passes:
  assumes "list_all (\<lambda>r. \<not> read_raises r \<and> data r \<noteq> [] \<and> writing r = Written \<and> \<not> skip_set r) pre"
    and "\<not> skip_status sk \<or> is_promo"
  shows "chunk_loop is_promo sr sk (pre @ rest) =
           (case chunk_loop is_promo sr sk rest of
              (ok, sk', evs) \<Rightarrow> (ok, sk', concat (map (\<lambda>r. [CheckSkip, Forward (data r)]) pre) @ evs))"
  using assms
proof (induction pre)
  case Nil
  then show ?case by (simp split: prod.splits)
next
  case (Cons r pre)
  then show ?case by (auto simp: Let_def split: prod.splits)
qed

lemma forwarded_append: "forwarded (xs @ ys) = forwarded xs @ forwarded ys"
  by (simp add: forwarded_def)

lemma forwarded_passes: "forwarded (concat (map (\<lambda>r. [CheckSkip, Forward (data r)]) pre)) = map data pre"
  by (induction pre) (simp_all add: forwarded_def)

lemma count_passes: "count_list (concat (map (\<lambda>r. [CheckSkip, Forward (data r)]) pre)) SkipTriggered = 0"
  by (induction pre) simp_all

lemma checks_passes:
  "count_list (concat (map (\<lambda>r. [CheckSkip, Forward (data r)]) pre)) CheckSkip = length pre"
  by (induction pre) simp_all

text \<open>In every run, each forwarded chunk comes right after its own check of the flag.\<close>

lemma chunk_loop_shape:
  "\<exists>n tail. n \<le> length rs
      \<and> snd (snd (chunk_loop is_promo sr sk rs))
          = concat (map (\<lambda>r. [CheckSkip, Forward (data r)]) (take n rs)) @ tail
      \<and> forwarded tail = [] \<and> count_list tail CheckSkip \<le> 1"
proof (induction rs arbitrary: sk)
  case Nil
  show ?case by (intro exI[of _ 0]) (simp add: forwarded_def)
next
  case (Cons r rs)
  let ?sk1 = "if skip_set r then set_skip_flag sk else sk"
  show ?case
  proof (cases "\<not> read_raises r \<and> data r \<noteq> [] \<and> \<not> (skip_status ?sk1 \<and> \<not> is_promo) \<and> writing r = Written")
    case True
    from Cons.IH[of ?sk1] obtain n tail where n: "n \<le> length rs"
        "snd (snd (chunk_loop is_promo sr ?sk1 rs))
          = concat (map (\<lambda>r. [CheckSkip, Forward (data r)]) (take n rs)) @ tail"
        "forwarded tail = []" "count_list tail CheckSkip \<le> 1" by blast
    have "snd (snd (chunk_loop is_promo sr sk (r # rs)))
            = CheckSkip # Forward (data r) # snd (snd (chunk_loop is_promo sr ?sk1 rs))"
      using True by (auto simp: Let_def split: prod.splits)
    then have "snd (snd (chunk_loop is_promo sr sk (r # rs)))
            = concat (map (\<lambda>r. [CheckSkip, Forward (data r)]) (take (Suc n) (r # rs))) @ tail"
      using n(2) by simp
    then show ?thesis using n(1,3,4) by (intro exI[of _ "Suc n"] exI[of _ tail]) simp
  next
    case False
    then have "\<exists>tail. snd (snd (chunk_loop is_promo sr sk (r # rs))) = tail
                 \<and> forwarded tail = [] \<and> count_list tail CheckSkip \<le> 1"
      by (cases "writing r") (auto simp: Let_def forwarded_def)
    then show ?thesis by (intro exI[of _ 0]) simp
  qed
qed

lemma set_skip_flag_idem: "set_skip_flag (set_skip_flag fl) = set_skip_flag fl"
  by (simp add: set_skip_flag_def)

lemma set_skip_flag_seen: "skip_status sk \<or> skip_set r \<Longrightarrow> (if skip_set r then set_skip_flag sk else sk) = set_skip_flag sk"
  by (cases sk) (auto simp: set_skip_flag_def)

text \<open>The stream up to a round \<open>r\<close> that follows rounds which pass.\<close>

lemma stream_up_to:
  assumes pre: "list_all passes pre" and first: "skip_status sk \<longrightarrow> pre = []"
    and env: "spawned env" "rounds env = pre @ r # post"
    and at_r: "chunk_loop False (still_running env) sk (r # post) = (ok, sk', evs)"
  shows "stream_single_file file_path False True sk env
           = (ok, sk', StreamStart file_path # concat (map (\<lambda>r. [CheckSkip, Forward (data r)]) pre) @ evs)"
proof -
  have run: "chunk_loop False (still_running env) sk (pre @ r # post)
               = (ok, sk', concat (map (\<lambda>r. [CheckSkip, Forward (data r)]) pre) @ evs)"
  proof (cases "skip_status sk")
    case True
    with first have "pre = []" by simp
    then show ?thesis using at_r by simp
  next
    case False
    have "list_all (\<lambda>r. \<not> read_raises r \<and> data r \<noteq> [] \<and> writing r = Written \<and> \<not> skip_set r) pre"
      using pre by (simp add: passes_def list_all_iff)
    from chunk_loop_passes[OF this, of sk False "still_running env" "r # post"] False at_r
    show ?thesis by simp
  qed
  show ?thesis using env run by (simp add: stream_single_file_def)
qed

lemma forwarded_stream:
  assumes "forwarded evs = []"
  shows "forwarded (StreamStart file_path # concat (map (\<lambda>r. [CheckSkip, Forward (data r)]) pre) @ evs)
           = map data pre"
proof -
  have "forwarded (StreamStart file_path # concat (map (\<lambda>r. [CheckSkip, Forward (data r)]) pre) @ evs)
          = forwarded (concat (map (\<lambda>r. [CheckSkip, Forward (data r)]) pre)) @ forwarded evs"
    by (simp add: forwarded_def)
  then show ?thesis using assms by (simp add: forwarded_passes)
qed

text \<open>
  C7, as amended.  Take the stream of a file as the loop starts it (\<open>is_promo\<close> at its
  default), whose rounds are \<open>pre\<close>, which pass, then a round \<open>r\<close>, then \<open>post\<close>, where the
  skip flag is set when \<open>r\<close> is reached and was not before.
  If the read of \<open>r\<close> returns a chunk, the stream returns \<open>True\<close> with the flag cleared (and
  \<open>stop_counter\<close> set); its events are, for each round of \<open>pre\<close>, one check of the flag
  followed by the chunk, then the check at \<open>r\<close> and the skip; so the chunks forwarded are
  those of \<open>pre\<close> only, the chunk of \<open>r\<close> and all of \<open>post\<close> are not, and the flag is cleared
  once.
  If the read of \<open>r\<close> returns the end of the file, the flag is not consulted: the file ends
  as it would have, every chunk of it forwarded, and the flag stays set; if the read
  raises, the stream ends in its handler and the flag stays set as well.  The stream of
  the next file that starts with the flag set is ended at its first chunk, which is not
  forwarded, and clears the flag.
  In every run each forwarded chunk follows its own check.  Setting the flag twice is
  setting it once.
\<close>

theorem skip_flag_ends_stream:
  assumes pre: "list_all passes pre" and first: "skip_status sk \<longrightarrow> pre = []"
    and seen: "skip_status sk \<or> skip_set r"
    and env: "spawned env" "rounds env = pre @ r # post"
  shows "(\<not> read_raises r \<and> data r \<noteq> [] \<longrightarrow>
        stream_single_file file_path False True sk env =
           (True, sk\<lparr>skip_status := False, stop_counter := True\<rparr>,
            StreamStart file_path # concat (map (\<lambda>r. [CheckSkip, Forward (data r)]) pre)
              @ CheckSkip # SkipTriggered # (if still_running env then [Terminate] else []))
        \<and> forwarded (snd (snd (stream_single_file file_path False True sk env))) = map data pre
        \<and> count_list (snd (snd (stream_single_file file_path False True sk env))) SkipTriggered = 1
        \<and> count_list (snd (snd (stream_single_file file_path False True sk env))) CheckSkip = Suc (length pre))
     \<and> (\<not> read_raises r \<and> data r = [] \<longrightarrow>
        stream_single_file file_path False True sk env =
           (True, set_skip_flag sk,
            StreamStart file_path # concat (map (\<lambda>r. [CheckSkip, Forward (data r)]) pre)
              @ Finished # (if still_running env then [Terminate] else []))
        \<and> forwarded (snd (snd (stream_single_file file_path False True sk env))) = map data pre
        \<and> count_list (snd (snd (stream_single_file file_path False True sk env))) SkipTriggered = 0)
     \<and> (read_raises r \<longrightarrow>
        stream_single_file file_path False True sk env =
           (True, set_skip_flag sk,
            StreamStart file_path # concat (map (\<lambda>r. [CheckSkip, Forward (data r)]) pre) @ [StreamError]))
     \<and> (\<forall>e r' post' next_path. spawned e \<and> rounds e = r' # post' \<and> \<not> read_raises r' \<and> data r' \<noteq> [] \<longrightarrow>
          stream_single_file next_path False True (set_skip_flag sk) e =
            (True, sk\<lparr>skip_status := False, stop_counter := True\<rparr>,
             StreamStart next_path # CheckSkip # SkipTriggered # (if still_running e then [Terminate] else [])))
     \<and> (\<forall>e fl. stream_single_file file_path False True (set_skip_flag (set_skip_flag fl)) e
              = stream_single_file file_path False True (set_skip_flag fl) e)
     \<and> (\<forall>e fl. \<exists>n tail. n \<le> length (rounds e)
            \<and> snd (snd (chunk_loop False (still_running e) fl (rounds e)))
                 = concat (map (\<lambda>r. [CheckSkip, Forward (data r)]) (take n (rounds e))) @ tail
            \<and> forwarded tail = [] \<and> count_list tail CheckSkip \<le> 1)"
proof (intro conjI impI allI)
  let ?fin = "if still_running env then [Terminate] else []"
  let ?pre = "concat (map (\<lambda>r. [CheckSkip, Forward (data r)]) pre)"
  note sk1 = set_skip_flag_seen[OF seen]
  {
    assume r: "\<not> read_raises r \<and> data r \<noteq> []"
    have at_r: "chunk_loop False (still_running env) sk (r # post)
               = (True, sk\<lparr>skip_status := False, stop_counter := True\<rparr>, CheckSkip # SkipTriggered # ?fin)"
      using r seen by (auto simp: Let_def set_skip_flag_def)
    show whole: "stream_single_file file_path False True sk env =
           (True, sk\<lparr>skip_status := False, stop_counter := True\<rparr>,
            StreamStart file_path # ?pre @ CheckSkip # SkipTriggered # ?fin)"
      by (rule stream_up_to[OF pre first env at_r])
    have "forwarded (CheckSkip # SkipTriggered # ?fin) = []" by (simp add: forwarded_def)
    from forwarded_stream[OF this, of file_path pre]
    show "forwarded (snd (snd (stream_single_file file_path False True sk env))) = map data pre"
      unfolding whole by simp
    show "count_list (snd (snd (stream_single_file file_path False True sk env))) SkipTriggered = 1"
      unfolding whole by (simp add: count_passes)
    show "count_list (snd (snd (stream_single_file file_path False True sk env))) CheckSkip = Suc (length pre)"
      unfolding whole by (simp add: checks_passes)
  }
  {
    assume r: "\<not> read_raises r \<and> data r = []"
    have at_r: "chunk_loop False (still_running env) sk (r # post)
               = (True, set_skip_flag sk, Finished # ?fin)"
      using r sk1 by (simp add: Let_def)
    show whole: "stream_single_file file_path False True sk env =
           (True, set_skip_flag sk, StreamStart file_path # ?pre @ Finished # ?fin)"
      by (rule stream_up_to[OF pre first env at_r])
    have "forwarded (Finished # ?fin) = []" by (simp add: forwarded_def)
    from forwarded_stream[OF this, of file_path pre]
    show "forwarded (snd (snd (stream_single_file file_path False True sk env))) = map data pre"
      unfolding whole by simp
    show "count_list (snd (snd (stream_single_file file_path False True sk env))) SkipTriggered = 0"
      unfolding whole by (simp add: count_passes)
  }
  {
    assume r: "read_raises r"
    have at_r: "chunk_loop False (still_running env) sk (r # post) = (True, set_skip_flag sk, [StreamError])"
      using r sk1 by (simp add: Let_def)
    show "stream_single_file file_path False True sk env =
           (True, set_skip_flag sk, StreamStart file_path # ?pre @ [StreamError])"
      by (rule stream_up_to[OF pre first env at_r])
  }
  {
    fix e :: stream_env and r' :: round and post' :: "round list" and next_path :: string
    assume a: "spawned e \<and> rounds e = r' # post' \<and> \<not> read_raises r' \<and> data r' \<noteq> []"
    then show "stream_single_file next_path False True (set_skip_flag sk) e =
            (True, sk\<lparr>skip_status := False, stop_counter := True\<rparr>,
             StreamStart next_path # CheckSkip # SkipTriggered # (if still_running e then [Terminate] else []))"
      by (auto simp: stream_single_file_def Let_def set_skip_flag_def)
  }
  {
    fix e :: stream_env and fl :: flags
    show "stream_single_file file_path False True (set_skip_flag (set_skip_flag fl)) e
              = stream_single_file file_path False True (set_skip_flag fl) e"
      by (simp add: set_skip_flag_idem)
  }
  {
    fix e fl
    show "\<exists>n tail. n \<le> length (rounds e)
            \<and> snd (snd (chunk_loop False (still_running e) fl (rounds e)))
                 = concat (map (\<lambda>r. [CheckSkip, Forward (data r)]) (take n (rounds e))) @ tail
            \<and> forwarded tail = [] \<and> count_list tail CheckSkip \<le> 1"
      by (rule chunk_loop_shape)
  }
qed

theorem skip_flag_ends_stream_witness:
  "list_all passes [plain ''c1''] \<and> \<not> read_raises (skipped ''c2'') \<and> data (skipped ''c2'') \<noteq> []
   \<and> skip_set (skipped ''c2'')
   \<and> stream_single_file ''one.mp3'' False True no_skip (streaming [plain ''c1'', skipped ''c2'', plain ''c3''])
       = (True, \<lparr>skip_status = False, stop_counter = True\<rparr>,
          [StreamStart ''one.mp3'', CheckSkip, Forward ''c1'', CheckSkip, SkipTriggered, Terminate])
   \<and> forwarded (snd (snd (stream_single_file ''one.mp3'' False True no_skip
          (streaming [plain ''c1'', skipped ''c2'', plain ''c3'']))))
       = [''c1'']
   \<and> \<not> read_raises skipped_at_end \<and> data skipped_at_end = [] \<and> skip_set skipped_at_end
   \<and> stream_single_file ''one.mp3'' False True no_skip (streaming [plain ''c1'', skipped_at_end])
       = (True, \<lparr>skip_status = True, stop_counter = False\<rparr>,
          [StreamStart ''one.mp3'', CheckSkip, Forward ''c1'', Finished, Terminate])
   \<and> stream_single_file ''two.mp3'' False True (set_skip_flag no_skip) (streaming [plain ''d1'', plain ''d2''])
       = (True, \<lparr>skip_status = False, stop_counter = True\<rparr>,
          [StreamStart ''two.mp3'', CheckSkip, SkipTriggered, Terminate])"
proof -
  have p: "list_all passes [plain ''c1'']" by (simp add: passes_def plain_def)
  have f: "skip_status no_skip \<longrightarrow> [plain ''c1''] = []" by (simp add: no_skip_def)
  have n: "\<not> read_raises (skipped ''c2'')" and d: "data (skipped ''c2'') \<noteq> []"
    and s: "skip_set (skipped ''c2'')"
    by (simp_all add: skipped_def)
  have s': "skip_status no_skip \<or> skip_set (skipped ''c2'')" using s by simp
  have e: "spawned (streaming [plain ''c1'', skipped ''c2'', plain ''c3''])"
    "rounds (streaming [plain ''c1'', skipped ''c2'', plain ''c3'']) = [plain ''c1''] @ skipped ''c2'' # [plain ''c3'']"
    by (simp_all add: streaming_def)
  note t = skip_flag_ends_stream[OF p f s' e, of "''one.mp3''", THEN conjunct1]
  have nd: "\<not> read_raises (skipped ''c2'') \<and> data (skipped ''c2'') \<noteq> []" using n d by simp
  note t1 = mp[OF t nd]
  have rhs: "(True, no_skip\<lparr>skip_status := False, stop_counter := True\<rparr>,
            StreamStart ''one.mp3'' # concat (map (\<lambda>r. [CheckSkip, Forward (data r)]) [plain ''c1''])
              @ CheckSkip # SkipTriggered
              # (if still_running (streaming [plain ''c1'', skipped ''c2'', plain ''c3''])
                 then [Terminate] else []))
      = (True, \<lparr>skip_status = False, stop_counter = True\<rparr>,
          [StreamStart ''one.mp3'', CheckSkip, Forward ''c1'', CheckSkip, SkipTriggered, Terminate])"
    by (simp add: no_skip_def streaming_def plain_def)
  have a: "stream_single_file ''one.mp3'' False True no_skip (streaming [plain ''c1'', skipped ''c2'', plain ''c3''])
       = (True, \<lparr>skip_status = False, stop_counter = True\<rparr>,
          [StreamStart ''one.mp3'', CheckSkip, Forward ''c1'', CheckSkip, SkipTriggered, Terminate])"
    using t1[THEN conjunct1] rhs by (rule trans)
  have md: "map data [plain ''c1''] = [''c1'']" by (simp add: plain_def)
  have b: "forwarded (snd (snd (stream_single_file ''one.mp3'' False True no_skip
          (streaming [plain ''c1'', skipped ''c2'', plain ''c3'']))))
       = [''c1'']"
    using t1[THEN conjunct2, THEN conjunct1] md by (rule trans)
  have n2: "\<not> read_raises skipped_at_end" and d2: "data skipped_at_end = []" and s2: "skip_set skipped_at_end"
    by (simp_all add: skipped_at_end_def)
  have s2': "skip_status no_skip \<or> skip_set skipped_at_end" using s2 by simp
  have e2: "spawned (streaming [plain ''c1'', skipped_at_end])"
    "rounds (streaming [plain ''c1'', skipped_at_end]) = [plain ''c1''] @ skipped_at_end # []"
    by (simp_all add: streaming_def)
  note u = skip_flag_ends_stream[OF p f s2' e2, of "''one.mp3''"]
  have nd2: "\<not> read_raises skipped_at_end \<and> data skipped_at_end = []" using n2 d2 by simp
  note u1 = mp[OF u[THEN conjunct2, THEN conjunct1] nd2]
  have rhs2: "(True, set_skip_flag no_skip,
            StreamStart ''one.mp3'' # concat (map (\<lambda>r. [CheckSkip, Forward (data r)]) [plain ''c1''])
              @ Finished # (if still_running (streaming [plain ''c1'', skipped_at_end]) then [Terminate] else []))
      = (True, \<lparr>skip_status = True, stop_counter = False\<rparr>,
          [StreamStart ''one.mp3'', CheckSkip, Forward ''c1'', Finished, Terminate])"
    by (simp add: no_skip_def streaming_def plain_def set_skip_flag_def)
  have c: "stream_single_file ''one.mp3'' False True no_skip (streaming [plain ''c1'', skipped_at_end])
       = (True, \<lparr>skip_status = True, stop_counter = False\<rparr>,
          [StreamStart ''one.mp3'', CheckSkip, Forward ''c1'', Finished, Terminate])"
    using u1[THEN conjunct1] rhs2 by (rule trans)
  have h3: "spawned (streaming [plain ''d1'', plain ''d2''])
      \<and> rounds (streaming [plain ''d1'', plain ''d2'']) = plain ''d1'' # [plain ''d2'']
      \<and> \<not> read_raises (plain ''d1'') \<and> data (plain ''d1'') \<noteq> []"
    by (simp add: streaming_def plain_def)
  from u[THEN conjunct2, THEN conjunct2, THEN conjunct2, THEN conjunct1] h3
  have "stream_single_file ''two.mp3'' False True (set_skip_flag no_skip) (streaming [plain ''d1'', plain ''d2'']) =
            (True, no_skip\<lparr>skip_status := False, stop_counter := True\<rparr>,
             StreamStart ''two.mp3'' # CheckSkip # SkipTriggered
               # (if still_running (streaming [plain ''d1'', plain ''d2'']) then [Terminate] else []))"
    by blast
  then have g: "stream_single_file ''two.mp3'' False True (set_skip_flag no_skip) (streaming [plain ''d1'', plain ''d2''])
       = (True, \<lparr>skip_status = False, stop_counter = True\<rparr>,
          [StreamStart ''two.mp3'', CheckSkip, SkipTriggered, Terminate])"
    by (simp add: no_skip_def streaming_def)
  from p n d s a b n2 d2 s2 c g show ?thesis by (intro conjI)
qed

text \<open>The claim as it is worded fails when the flag is set while the read that returns the
  end of the file is awaited: the stream of \<open>one.mp3\<close> ends as it would have, with its
  chunk forwarded and the flag still set, and it is the stream of the next file that is
  ended, before its first chunk is forwarded.\<close>

theorem skip_set_at_last_read:
  "stream_single_file ''one.mp3'' False True no_skip (streaming [plain ''c1'', skipped_at_end])
       = (True, \<lparr>skip_status = True, stop_counter = False\<rparr>,
          [StreamStart ''one.mp3'', CheckSkip, Forward ''c1'', Finished, Terminate])
   \<and> stream_single_file ''two.mp3'' False True \<lparr>skip_status = True, stop_counter = False\<rparr>
          (streaming [plain ''d1'', plain ''d2''])
       = (True, \<lparr>skip_status = False, stop_counter = True\<rparr>,
          [StreamStart ''two.mp3'', CheckSkip, SkipTriggered, Terminate])"
  by (simp add: stream_single_file_def streaming_def plain_def skipped_at_end_def no_skip_def
      set_skip_flag_def Let_def)

section \<open>A lost connection\<close>

lemma connect_shape:
  "connect_to_icecast hs = Some evs \<Longrightarrow> \<exists>k. evs = replicate k HandshakeFailed @ [Connect]"
proof (induction hs arbitrary: evs)
  case Nil
  then show ?case by simp
next
  case (Cons h hs)
  show ?case
  proof (cases h)
    case True
    with Cons.prems have "evs = replicate 0 HandshakeFailed @ [Connect]" by simp
    then show ?thesis by blast
  next
    case False
    with Cons.prems obtain evs' where e: "connect_to_icecast hs = Some evs'" "evs = HandshakeFailed # evs'"
      by auto
    from Cons.IH[OF e(1)] obtain k where "evs' = replicate k HandshakeFailed @ [Connect]" by blast
    with e(2) have "evs = replicate (Suc k) HandshakeFailed @ [Connect]" by simp
    then show ?thesis by blast
  qed
qed

lemma loop_round_parts:
  assumes "loop_round env st = Some (st', evs)"
  obtains ev0 st2 ev1 where
    "(if connected st then Some [] else connect_to_icecast (handshakes env)) = Some ev0"
    "promotion_check env (st\<lparr>connected := True\<rparr>) = (st2, ev1)"
    "st' = fst (normal_stream_flow env st2)"
    "evs = ev0 @ ev1 @ snd (normal_stream_flow env st2)"
proof -
  from assms obtain ev0 where c: "(if connected st then Some [] else connect_to_icecast (handshakes env)) = Some ev0"
    by (auto simp: loop_round_def split: option.splits)
  obtain st2 ev1 where p: "promotion_check env (st\<lparr>connected := True\<rparr>) = (st2, ev1)"
    by (cases "promotion_check env (st\<lparr>connected := True\<rparr>)")
  have "st' = fst (normal_stream_flow env st2)" "evs = ev0 @ ev1 @ snd (normal_stream_flow env st2)"
    using assms c p by (auto simp: loop_round_def split: prod.splits)
  with c p that show ?thesis by blast
qed

lemma loop_round_reconnects:
  assumes "\<not> connected st" "loop_round env st = Some (st', evs)"
  shows "\<exists>k later. evs = replicate k HandshakeFailed @ Connect # later"
proof -
  from assms(2) obtain ev0 st2 ev1 where
    c: "(if connected st then Some [] else connect_to_icecast (handshakes env)) = Some ev0"
    and e: "evs = ev0 @ ev1 @ snd (normal_stream_flow env st2)"
    by (rule loop_round_parts)
  from c assms(1) have "connect_to_icecast (handshakes env) = Some ev0" by simp
  from connect_shape[OF this] obtain k where "ev0 = replicate k HandshakeFailed @ [Connect]" by blast
  with e have "evs = replicate k HandshakeFailed @ Connect # (ev1 @ snd (normal_stream_flow env st2))"
    by simp
  then show ?thesis by blast
qed

text \<open>The round in which the file at the head of the playlist is streamed, without
  promotions.\<close>

lemma loop_round_song:
  assumes c: "(if connected st then Some [] else connect_to_icecast (handshakes env)) = Some ev0"
    and np: "\<not> should_play_promo env"
    and pl: "foldl add_song (playlist st) (downloaded env) = p # lines"
    and ex: "path_exists env p"
    and s: "stream_single_file p False True (skip st) (song_stream env) = (ok, sk', sev)"
  shows "loop_round env st =
           Some (st\<lparr>connected := ok, playlist := lines, skip := sk',
                    files := fst (cycle (fails env) (files st))\<rparr>,
                 ev0 @ ManageTask ''song_downloader'' # sev @ snd (cycle (fails env) (files st))
                   @ (if ok then [] else [MarkLost]))"
proof -
  have g: "get_next_song env (st\<lparr>connected := True\<rparr>) = (Some p, st\<lparr>connected := True, playlist := lines\<rparr>)"
    using pl ex by (simp add: get_next_song_def)
  have n: "normal_stream_flow env (st\<lparr>connected := True\<rparr>)
      = (st\<lparr>connected := ok, playlist := lines, skip := sk',
             files := fst (cycle (fails env) (files st))\<rparr>,
         ManageTask ''song_downloader'' # sev @ snd (cycle (fails env) (files st))
           @ (if ok then [] else [MarkLost]))"
    using g ex s by (cases ok) (simp_all add: normal_stream_flow_def split: prod.splits)
  show ?thesis using c np n by (simp add: loop_round_def promotion_check_def)
qed

lemma chunk_loop_lost:
  assumes pre: "list_all passes pre" and q: "\<not> skip_status sk"
    and r: "\<not> read_raises r" "data r \<noteq> []" "\<not> skip_set r" "writing r = ConnectionLost"
  shows "chunk_loop is_promo sr sk (pre @ r # post)
           = (terminate_raises r, sk,
              concat (map (\<lambda>r. [CheckSkip, Forward (data r)]) pre)
                @ [CheckSkip, WriterDisconnected, if terminate_raises r then StreamError else Terminate])"
proof -
  have at_r: "chunk_loop is_promo sr sk (r # post)
      = (terminate_raises r, sk,
         [CheckSkip, WriterDisconnected, if terminate_raises r then StreamError else Terminate])"
    using r q by (cases "terminate_raises r") (simp_all add: Let_def)
  have "list_all (\<lambda>r. \<not> read_raises r \<and> data r \<noteq> [] \<and> writing r = Written \<and> \<not> skip_set r) pre"
    using pre by (simp add: passes_def list_all_iff)
  from chunk_loop_passes[OF this, of sk is_promo sr "r # post"] q at_r
  show ?thesis by simp
qed

text \<open>The relay accepts a handshake: the connection is made, and the round returns.\<close>

lemma connect_succeeds:
  "True \<in> set hs \<Longrightarrow> \<exists>k. connect_to_icecast hs = Some (replicate k HandshakeFailed @ [Connect])"
proof (induction hs)
  case Nil
  then show ?case by simp
next
  case (Cons h hs)
  show ?case
  proof (cases h)
    case True
    then have "connect_to_icecast (h # hs) = Some (replicate 0 HandshakeFailed @ [Connect])" by simp
    then show ?thesis by blast
  next
    case False
    with Cons obtain k where "connect_to_icecast hs = Some (replicate k HandshakeFailed @ [Connect])"
      by auto
    with False have "connect_to_icecast (h # hs) = Some (replicate (Suc k) HandshakeFailed @ [Connect])"
      by simp
    then show ?thesis by blast
  qed
qed

lemma loop_round_returns:
  assumes "connected st \<or> True \<in> set (handshakes env)"
  shows "\<exists>st' evs. loop_round env st = Some (st', evs)"
proof -
  have "\<exists>ev0. (if connected st then Some [] else connect_to_icecast (handshakes env)) = Some ev0"
    using assms connect_succeeds[of "handshakes env"] by auto
  then show ?thesis by (auto simp: loop_round_def split: prod.splits)
qed

text \<open>What holds when the subprocess is still running at the failed write: the stream of
  a file, promotion or not, whose rounds are \<open>pre\<close>, which pass, then a round \<open>r\<close> whose
  write meets a broken pipe or a connection reset, returns \<open>False\<close> after terminating the
  subprocess, with the chunk of \<open>r\<close> not written again; the round of the loop that streams
  the head \<open>p\<close> of the playlist as such a file, with no promotion due, takes \<open>p\<close> off the
  playlist, runs the cycle and then marks the connection as lost; and a round that starts
  with the connection marked as lost connects first, if the relay accepts a handshake.\<close>

lemma write_failure_while_running:
  assumes pre: "list_all passes pre" and q: "\<not> skip_status sk"
    and r: "\<not> read_raises r" "data r \<noteq> []" "\<not> skip_set r" "writing r = ConnectionLost"
    and run: "\<not> terminate_raises r"
    and senv: "spawned senv" "rounds senv = pre @ r # post"
  shows "stream_single_file p is_promo True sk senv
           = (False, sk, StreamStart p # concat (map (\<lambda>r. [CheckSkip, Forward (data r)]) pre)
                           @ [CheckSkip, WriterDisconnected, Terminate])"
    and "connected st \<and> \<not> should_play_promo env \<and> foldl add_song (playlist st) (downloaded env) = p # lines
          \<and> path_exists env p \<and> skip st = sk \<and> song_stream env = senv \<Longrightarrow>
        loop_round env st =
           Some (st\<lparr>connected := False, playlist := lines, skip := sk,
                    files := fst (cycle (fails env) (files st))\<rparr>,
                 ManageTask ''song_downloader''
                   # (StreamStart p # concat (map (\<lambda>r. [CheckSkip, Forward (data r)]) pre)
                           @ [CheckSkip, WriterDisconnected, Terminate])
                   @ snd (cycle (fails env) (files st)) @ [MarkLost])"
proof -
  have run': "\<And>b. chunk_loop b (still_running senv) sk (pre @ r # post)
           = (False, sk, concat (map (\<lambda>r. [CheckSkip, Forward (data r)]) pre)
                           @ [CheckSkip, WriterDisconnected, Terminate])"
    using chunk_loop_lost[OF pre q r] run by simp
  show whole: "stream_single_file p is_promo True sk senv
           = (False, sk, StreamStart p # concat (map (\<lambda>r. [CheckSkip, Forward (data r)]) pre)
                           @ [CheckSkip, WriterDisconnected, Terminate])"
    using senv run' by (simp add: stream_single_file_def)
  assume a: "connected st \<and> \<not> should_play_promo env
      \<and> foldl add_song (playlist st) (downloaded env) = p # lines
      \<and> path_exists env p \<and> skip st = sk \<and> song_stream env = senv"
  have s: "stream_single_file p False True (skip st) (song_stream env)
           = (False, sk, StreamStart p # concat (map (\<lambda>r. [CheckSkip, Forward (data r)]) pre)
                           @ [CheckSkip, WriterDisconnected, Terminate])"
    using a senv run' by (simp add: stream_single_file_def)
  have c: "(if connected st then Some [] else connect_to_icecast (handshakes env)) = Some []"
    using a by simp
  from loop_round_song[OF c _ _ _ s, of lines] a
  show "loop_round env st =
           Some (st\<lparr>connected := False, playlist := lines, skip := sk,
                    files := fst (cycle (fails env) (files st))\<rparr>,
                 ManageTask ''song_downloader''
                   # (StreamStart p # concat (map (\<lambda>r. [CheckSkip, Forward (data r)]) pre)
                           @ [CheckSkip, WriterDisconnected, Terminate])
                   @ snd (cycle (fails env) (files st)) @ [MarkLost])"
    by simp
qed

text \<open>
  C6.  Two rounds of the loop in which the write of a chunk meets a reset connection.

  In the first, the file \<open>one.mp3\<close> at the head of the playlist is streamed and the write
  of its second chunk fails after the subprocess has exited, so that \<open>proc.terminate()\<close>
  raises in the handler: the stream returns \<open>True\<close>, the round ends with the connection
  still marked as connected and without marking it lost, and the round after it streams
  \<open>two.mp3\<close> without connecting first.

  In the second, a promotion is due and the write of its first chunk fails while the
  subprocess runs: the connection is marked as lost, but the \<open>continue\<close> of the promotion
  loop goes on, and the same round takes \<open>one.mp3\<close> off the playlist and streams it to the
  lost connection, runs the cycle for it and marks the connection lost again, all before
  any connection attempt.
\<close>

theorem lost_writer_without_reconnect:
  "loop_round exited_env on_air
     = Some (on_air\<lparr>playlist := [''two.mp3''], files := move_to_now_playing (add_to_history st_next)\<rparr>,
             ManageTask ''song_downloader''
               # [StreamStart ''one.mp3'', CheckSkip, Forward ''c1'', CheckSkip, WriterDisconnected, StreamError]
               @ cycle_steps)
   \<and> connected (on_air\<lparr>playlist := [''two.mp3''], files := move_to_now_playing (add_to_history st_next)\<rparr>)
   \<and> map_option (take 3 \<circ> snd)
        (loop_round exited_env
           (on_air\<lparr>playlist := [''two.mp3''], files := move_to_now_playing (add_to_history st_next)\<rparr>))
       = Some [ManageTask ''song_downloader'', StreamStart ''two.mp3'', CheckSkip]
   \<and> loop_round lost_promo_env on_air
     = Some (on_air\<lparr>connected := False, playlist := [''two.mp3''],
                    files := move_to_now_playing
                               (add_to_history (save_promo_metadata st_next (promo_song ''P'')))\<rparr>,
             [PromoSaved ''promo.mp3'', BroadcastPromo ''promo.mp3'', PromoMetadataUpdate ''promo.mp3'',
              StreamStart ''promo.mp3'', CheckSkip, WriterDisconnected, Terminate, MarkLost,
              ResetSongCount, ManageTask ''song_downloader'',
              StreamStart ''one.mp3'', CheckSkip, WriterDisconnected, Terminate]
               @ cycle_steps @ [MarkLost])"
proof (intro conjI)
  have on: "on_air\<lparr>connected := True\<rparr> = on_air" by (simp add: on_air_def)
  have cyc: "cycle (\<lambda>e. False) st_next = (move_to_now_playing (add_to_history st_next), cycle_steps)"
    by (rule cycle_full) (simp_all add: st_next_def a_song_def add_to_history_def
        move_to_now_playing_def truthy_def)
  have s: "stream_single_file ''one.mp3'' False True no_skip (streaming [plain ''c1'', broken_exited ''c2''])
     = (True, no_skip,
        [StreamStart ''one.mp3'', CheckSkip, Forward ''c1'', CheckSkip, WriterDisconnected, StreamError])"
    by (simp add: stream_single_file_def streaming_def plain_def broken_exited_def no_skip_def Let_def)
  have c: "(if connected on_air then Some [] else connect_to_icecast (handshakes exited_env)) = Some []"
    by (simp add: on_air_def)
  have r1: "loop_round exited_env on_air
     = Some (on_air\<lparr>connected := True, playlist := [''two.mp3''], skip := no_skip,
                    files := fst (cycle (fails exited_env) (files on_air))\<rparr>,
             [] @ ManageTask ''song_downloader''
               # [StreamStart ''one.mp3'', CheckSkip, Forward ''c1'', CheckSkip, WriterDisconnected, StreamError]
               @ snd (cycle (fails exited_env) (files on_air)) @ (if True then [] else [MarkLost]))"
  proof (rule loop_round_song[OF c])
    show "\<not> should_play_promo exited_env" by (simp add: exited_env_def quiet_env_def)
    show "foldl add_song (playlist on_air) (downloaded exited_env) = ''one.mp3'' # [''two.mp3'']"
      by (simp add: exited_env_def quiet_env_def on_air_def)
    show "path_exists exited_env ''one.mp3''" by (simp add: exited_env_def quiet_env_def)
    have "skip on_air = no_skip" "song_stream exited_env = streaming [plain ''c1'', broken_exited ''c2'']"
      by (simp_all add: exited_env_def quiet_env_def on_air_def)
    then show "stream_single_file ''one.mp3'' False True (skip on_air) (song_stream exited_env)
     = (True, no_skip,
        [StreamStart ''one.mp3'', CheckSkip, Forward ''c1'', CheckSkip, WriterDisconnected, StreamError])"
      using s by simp
  qed
  have f: "fails exited_env = (\<lambda>e. False)" "files on_air = st_next"
    by (simp_all add: exited_env_def quiet_env_def on_air_def)
  have same: "on_air\<lparr>connected := True, playlist := [''two.mp3''], skip := no_skip,
                    files := move_to_now_playing (add_to_history st_next)\<rparr>
      = on_air\<lparr>playlist := [''two.mp3''], files := move_to_now_playing (add_to_history st_next)\<rparr>"
    by (simp add: on_air_def)
  show first: "loop_round exited_env on_air
     = Some (on_air\<lparr>playlist := [''two.mp3''], files := move_to_now_playing (add_to_history st_next)\<rparr>,
             ManageTask ''song_downloader''
               # [StreamStart ''one.mp3'', CheckSkip, Forward ''c1'', CheckSkip, WriterDisconnected, StreamError]
               @ cycle_steps)"
    using r1 same unfolding f cyc by simp
  show "connected (on_air\<lparr>playlist := [''two.mp3''], files := move_to_now_playing (add_to_history st_next)\<rparr>)"
    by (simp add: on_air_def)
  let ?st1 = "on_air\<lparr>playlist := [''two.mp3''], files := move_to_now_playing (add_to_history st_next)\<rparr>"
  have s2: "stream_single_file ''two.mp3'' False True no_skip (streaming [plain ''c1'', broken_exited ''c2''])
     = (True, no_skip,
        [StreamStart ''two.mp3'', CheckSkip, Forward ''c1'', CheckSkip, WriterDisconnected, StreamError])"
    by (simp add: stream_single_file_def streaming_def plain_def broken_exited_def no_skip_def Let_def)
  have c2: "(if connected ?st1 then Some [] else connect_to_icecast (handshakes exited_env)) = Some []"
    by (simp add: on_air_def)
  have r2: "loop_round exited_env ?st1
     = Some (?st1\<lparr>connected := True, playlist := [], skip := no_skip,
                    files := fst (cycle (fails exited_env) (files ?st1))\<rparr>,
             [] @ ManageTask ''song_downloader''
               # [StreamStart ''two.mp3'', CheckSkip, Forward ''c1'', CheckSkip, WriterDisconnected, StreamError]
               @ snd (cycle (fails exited_env) (files ?st1)) @ (if True then [] else [MarkLost]))"
  proof (rule loop_round_song[OF c2])
    show "\<not> should_play_promo exited_env" by (simp add: exited_env_def quiet_env_def)
    show "foldl add_song (playlist ?st1) (downloaded exited_env) = ''two.mp3'' # []"
      by (simp add: exited_env_def quiet_env_def on_air_def)
    show "path_exists exited_env ''two.mp3''" by (simp add: exited_env_def quiet_env_def)
    have "skip ?st1 = no_skip" "song_stream exited_env = streaming [plain ''c1'', broken_exited ''c2'']"
      by (simp_all add: exited_env_def quiet_env_def on_air_def)
    then show "stream_single_file ''two.mp3'' False True (skip ?st1) (song_stream exited_env)
     = (True, no_skip,
        [StreamStart ''two.mp3'', CheckSkip, Forward ''c1'', CheckSkip, WriterDisconnected, StreamError])"
      using s2 by simp
  qed
  show "map_option (take 3 \<circ> snd) (loop_round exited_env ?st1)
       = Some [ManageTask ''song_downloader'', StreamStart ''two.mp3'', CheckSkip]"
    unfolding r2 by simp
  have sp: "stream_single_file ''promo.mp3'' False True no_skip (streaming [broken ''p1''])
     = (False, no_skip, [StreamStart ''promo.mp3'', CheckSkip, WriterDisconnected, Terminate])"
    by (simp add: stream_single_file_def streaming_def broken_def no_skip_def Let_def)
  have ss: "stream_single_file ''one.mp3'' False True no_skip (streaming [broken ''s1''])
     = (False, no_skip, [StreamStart ''one.mp3'', CheckSkip, WriterDisconnected, Terminate])"
    by (simp add: stream_single_file_def streaming_def broken_def no_skip_def Let_def)
  let ?stp = "on_air\<lparr>files := save_promo_metadata st_next (promo_song ''P''), connected := False\<rparr>"
  have promos: "play_promos lost_promo_env on_air [lost_promo]
     = (?stp,
        [PromoSaved ''promo.mp3'', BroadcastPromo ''promo.mp3'', PromoMetadataUpdate ''promo.mp3'',
         StreamStart ''promo.mp3'', CheckSkip, WriterDisconnected, Terminate, MarkLost])"
    using sp by (simp add: lost_promo_env_def quiet_env_def lost_promo_def on_air_def Let_def)
  have check: "promotion_check lost_promo_env (on_air\<lparr>connected := True\<rparr>)
     = (?stp,
        [PromoSaved ''promo.mp3'', BroadcastPromo ''promo.mp3'', PromoMetadataUpdate ''promo.mp3'',
         StreamStart ''promo.mp3'', CheckSkip, WriterDisconnected, Terminate, MarkLost, ResetSongCount])"
    unfolding on using promos
    by (simp add: promotion_check_def lost_promo_env_def quiet_env_def)
  have cycp: "cycle (\<lambda>e. False) (save_promo_metadata st_next (promo_song ''P''))
      = (move_to_now_playing (add_to_history (save_promo_metadata st_next (promo_song ''P''))), cycle_steps)"
    by (rule cycle_full) (simp_all add: save_promo_metadata_def st_next_def promo_song_def
        add_to_history_def move_to_now_playing_def truthy_def)
  have flow: "normal_stream_flow lost_promo_env ?stp
     = (?stp\<lparr>playlist := [''two.mp3''],
              files := move_to_now_playing (add_to_history (save_promo_metadata st_next (promo_song ''P'')))\<rparr>,
        ManageTask ''song_downloader'' # [StreamStart ''one.mp3'', CheckSkip, WriterDisconnected, Terminate]
          @ cycle_steps @ [MarkLost])"
    using ss cycp by (simp add: normal_stream_flow_def get_next_song_def lost_promo_env_def quiet_env_def
        on_air_def add_song_def split: prod.splits)
  have fin: "?stp\<lparr>playlist := [''two.mp3''],
              files := move_to_now_playing (add_to_history (save_promo_metadata st_next (promo_song ''P'')))\<rparr>
      = on_air\<lparr>connected := False, playlist := [''two.mp3''],
                    files := move_to_now_playing
                               (add_to_history (save_promo_metadata st_next (promo_song ''P'')))\<rparr>"
    by (simp add: on_air_def)
  show "loop_round lost_promo_env on_air
     = Some (on_air\<lparr>connected := False, playlist := [''two.mp3''],
                    files := move_to_now_playing
                               (add_to_history (save_promo_metadata st_next (promo_song ''P'')))\<rparr>,
             [PromoSaved ''promo.mp3'', BroadcastPromo ''promo.mp3'', PromoMetadataUpdate ''promo.mp3'',
              StreamStart ''promo.mp3'', CheckSkip, WriterDisconnected, Terminate, MarkLost,
              ResetSongCount, ManageTask ''song_downloader'',
              StreamStart ''one.mp3'', CheckSkip, WriterDisconnected, Terminate]
               @ cycle_steps @ [MarkLost])"
    using check flow fin by (simp add: loop_round_def on_air_def)
qed

section \<open>Promotions and the skip flag\<close>

text \<open>With \<open>is_promo\<close> true the check of the flag has no effect: the stream below runs to
  its end and the flag stays set.\<close>

lemma is_promo_bypasses_skip:
  "stream_single_file ''promo.mp3'' True True no_skip (streaming [plain ''p1'', skipped ''p2'', plain ''p3''])
     = (True, \<lparr>skip_status = True, stop_counter = False\<rparr>,
        [StreamStart ''promo.mp3'', CheckSkip, Forward ''p1'', CheckSkip, Forward ''p2'',
         CheckSkip, Forward ''p3'', Finished, Terminate])"
  by (simp add: stream_single_file_def streaming_def plain_def skipped_def no_skip_def
      set_skip_flag_def Let_def)

text \<open>
  C10.  The loop streams a promotion with \<open>is_promo\<close> at its default \<open>False\<close>.  In the round
  below a promotion of three chunks is due and the skip flag is set while its second chunk
  is read: the promotion ends there (only its first chunk is forwarded), the flag is
  cleared by the promotion, and the song that follows is streamed whole.
\<close>

theorem promo_is_skipped_by_flag:
  "\<exists>st' evs. loop_round promo_env on_air = Some (st', evs)
      \<and> forwarded evs = [''p1'', ''s1'']
      \<and> skip st' = \<lparr>skip_status = False, stop_counter = True\<rparr>
      \<and> take 8 evs = [PromoSaved ''promo.mp3'', BroadcastPromo ''promo.mp3'',
                       PromoMetadataUpdate ''promo.mp3'', StreamStart ''promo.mp3'',
                       CheckSkip, Forward ''p1'', CheckSkip, SkipTriggered]"
proof -
  have s: "stream_single_file ''promo.mp3'' False True no_skip
             (streaming [plain ''p1'', skipped ''p2'', plain ''p3''])
     = (True, \<lparr>skip_status = False, stop_counter = True\<rparr>,
        [StreamStart ''promo.mp3'', CheckSkip, Forward ''p1'', CheckSkip, SkipTriggered, Terminate])"
    by (simp add: stream_single_file_def streaming_def plain_def skipped_def no_skip_def
        set_skip_flag_def Let_def)
  have s2: "stream_single_file ''one.mp3'' False True \<lparr>skip_status = False, stop_counter = True\<rparr>
             (streaming [plain ''s1''])
     = (True, \<lparr>skip_status = False, stop_counter = True\<rparr>,
        [StreamStart ''one.mp3'', CheckSkip, Forward ''s1'', Finished, Terminate])"
    by (simp add: stream_single_file_def streaming_def plain_def Let_def)
  have promos: "play_promos promo_env on_air [a_promo]
     = (on_air\<lparr>files := save_promo_metadata st_next (promo_song ''P''),
               skip := \<lparr>skip_status = False, stop_counter = True\<rparr>\<rparr>,
        [PromoSaved ''promo.mp3'', BroadcastPromo ''promo.mp3'', PromoMetadataUpdate ''promo.mp3'',
         StreamStart ''promo.mp3'', CheckSkip, Forward ''p1'', CheckSkip, SkipTriggered, Terminate,
         BroadcastNowPlayingAfterPromo, UpdatePlayStats])"
    using s by (simp add: promo_env_def quiet_env_def a_promo_def on_air_def Let_def
        save_promo_metadata_def truthy_def)
  have check: "promotion_check promo_env (on_air\<lparr>connected := True\<rparr>)
     = (on_air\<lparr>files := save_promo_metadata st_next (promo_song ''P''),
               skip := \<lparr>skip_status = False, stop_counter = True\<rparr>\<rparr>,
        [PromoSaved ''promo.mp3'', BroadcastPromo ''promo.mp3'', PromoMetadataUpdate ''promo.mp3'',
         StreamStart ''promo.mp3'', CheckSkip, Forward ''p1'', CheckSkip, SkipTriggered, Terminate,
         BroadcastNowPlayingAfterPromo, UpdatePlayStats, ResetSongCount])"
  proof -
    have "on_air\<lparr>connected := True\<rparr> = on_air" by (simp add: on_air_def)
    then show ?thesis using promos
      by (simp add: promotion_check_def promo_env_def quiet_env_def)
  qed
  let ?st2 = "on_air\<lparr>files := save_promo_metadata st_next (promo_song ''P''),
               skip := \<lparr>skip_status = False, stop_counter = True\<rparr>\<rparr>"
  have flow: "normal_stream_flow promo_env ?st2
     = (?st2\<lparr>playlist := [''two.mp3''],
              files := fst (cycle (\<lambda>e. False) (save_promo_metadata st_next (promo_song ''P'')))\<rparr>,
        ManageTask ''song_downloader'' # [StreamStart ''one.mp3'', CheckSkip, Forward ''s1'', Finished, Terminate]
          @ snd (cycle (\<lambda>e. False) (save_promo_metadata st_next (promo_song ''P''))))"
    using s2 by (simp add: normal_stream_flow_def get_next_song_def promo_env_def quiet_env_def
        on_air_def add_song_def split: prod.splits)
  have cyc: "snd (cycle (\<lambda>e. False) (save_promo_metadata st_next (promo_song ''P''))) = cycle_steps"
    by (simp add: cycle_full save_promo_metadata_def st_next_def promo_song_def add_to_history_def
        move_to_now_playing_def truthy_def)
  have round: "loop_round promo_env on_air
     = Some (?st2\<lparr>playlist := [''two.mp3''],
              files := fst (cycle (\<lambda>e. False) (save_promo_metadata st_next (promo_song ''P'')))\<rparr>,
        [PromoSaved ''promo.mp3'', BroadcastPromo ''promo.mp3'', PromoMetadataUpdate ''promo.mp3'',
         StreamStart ''promo.mp3'', CheckSkip, Forward ''p1'', CheckSkip, SkipTriggered, Terminate,
         BroadcastNowPlayingAfterPromo, UpdatePlayStats, ResetSongCount]
        @ ManageTask ''song_downloader'' # [StreamStart ''one.mp3'', CheckSkip, Forward ''s1'', Finished, Terminate]
          @ cycle_steps)"
    using check flow cyc by (simp add: loop_round_def on_air_def)
  show ?thesis unfolding round
    by (simp add: forwarded_def cycle_steps_def)
qed

end
